theory Spec2Isabelle
  imports Complex_Main
begin

unbundle bit_operations_syntax

section \<open>Data model of script.js\<close>

text \<open>
  The board is a square of \<open>gridSize\<close> tiles. Coordinates are JavaScript numbers that only
  ever hold small integers; they are modelled as \<open>int\<close>, counters as \<open>nat\<close>.
\<close>

definition gridSize :: int where
  "gridSize = 18"

datatype direction_name = North | East | South | West

record pos =
  x :: int
  y :: int

text \<open>An entry of the \<open>directions\<close> table: an offset and its name.\<close>

record direction = pos +
  name :: direction_name

definition directions :: "direction list" where
  "directions =
     [\<lparr>x = 0, y = -1, name = North\<rparr>,
      \<lparr>x = 1, y = 0, name = East\<rparr>,
      \<lparr>x = 0, y = 1, name = South\<rparr>,
      \<lparr>x = -1, y = 0, name = West\<rparr>]"

text \<open>
  The five archetype names. A tile stores the name of its archetype (a string in the
  source); the table \<open>archetypes\<close> lists them in source order and \<open>trigger\<close> below is
  the predicate stored with each entry.
\<close>

datatype archetype_name = ThirdExit | NorthEntry | Sequence | Frequency | Backtrack

definition archetypes :: "archetype_name list" where
  "archetypes = [ThirdExit, NorthEntry, Sequence, Frequency, Backtrack]"

datatype tile_state = Neutral | Safe | Wall | Exit

text \<open>
  A tile. \<open>lastEntry\<close> is \<open>None\<close> for JavaScript \<open>null\<close>. \<open>reveal\<close> is a binary64
  number in the source that starts at 0, is set to 1 and decays by 0.02 per frame; it is
  kept as a rational here and only the presentation reads it.
\<close>

record tile = pos +
  archetype :: archetype_name
  state :: tile_state
  leaveCount :: nat
  visits :: nat
  lastEntry :: "direction_name option"
  reveal :: rat

record thresholds_rec =
  thirdExit :: nat
  frequencyWindow :: nat
  frequencyCount :: nat
  backtrackWindow :: nat

text \<open>
  The variable \<open>a\<close> captured by the closure of \<open>mulberry32\<close> is a JavaScript number. It
  starts as the result of \<open>Math.floor\<close> and only ever has a constant added, so it is an
  integer-valued binary64 (\<open>Finite n\<close>, with \<open>n\<close> its value; minus zero counts as zero),
  or \<open>NaN\<close>, or one of the infinities.
\<close>

datatype jsnum = Finite int | NaN | PosInf | NegInf

text \<open>
  The session object. \<open>rng\<close> is the closure returned by \<open>mulberry32\<close>; its only state
  is the captured variable \<open>a\<close>, which is what the field holds. In \<open>recentDirections\<close>
  the entry \<open>None\<close> stands for the string "none" pushed when the offset is not one of the
  four directions.
\<close>

record game =
  rng :: jsnum
  grid :: "tile list list"
  player :: pos
  exit :: pos
  moveCount :: nat
  crystallized :: nat
  recentDirections :: "direction_name option list"
  recentArchetypes :: "archetype_name list"
  recentPositions :: "pos list"
  thresholds :: thresholds_rec
  archetypePool :: "archetype_name list"
  message :: string
  revealTimer :: nat

section \<open>The generator mulberry32 and shuffle\<close>

text \<open>
  32-bit values are kept as their unsigned bit pattern, an \<open>int\<close> in \<open>[0, 2^32)\<close>.
  JavaScript's bitwise operators first reduce a number to its low 32 bits (\<open>toU32\<close>);
  the signed reading used by \<open>^\<close>, \<open>|\<close> and \<open>Math.imul\<close> has the same bits, so
  \<open>XOR\<close> and \<open>OR\<close> on the patterns, \<open>>>>\<close> as \<open>drop_bit\<close> on the pattern and the
  product reduced modulo \<open>2^32\<close> give the bits the source computes.
\<close>

definition toU32 :: "int \<Rightarrow> int" where
  "toU32 n = n mod 4294967296"

definition imul :: "int \<Rightarrow> int \<Rightarrow> int" where
  "imul p q = toU32 (p * q)"

text \<open>
  The distance between neighbouring binary64 values at magnitude \<open>m\<close>: 1 below \<open>2^53\<close>,
  doubling with every further bit.
\<close>

function spacing :: "int \<Rightarrow> int" where
  "spacing m = (if m < 9007199254740992 then 1 else 2 * spacing (m div 2))"
  by pat_completeness auto
termination
  by (relation "measure nat") auto

declare spacing.simps [simp del]

text \<open>
  The binary64 nearest to an integer, ties to the even significand: what an addition of two
  integer-valued binary64 numbers returns for their exact sum. Integers below \<open>2^53\<close> in
  magnitude are returned as they are.
\<close>

definition toDouble :: "int \<Rightarrow> int" where
  "toDouble n =
     (let m = \<bar>n\<bar>; u = spacing m; q = m div u; r = m mod u;
          q' = (if 2 * r < u then q
                else if 2 * r > u then q + 1
                else if even q then q else q + 1)
      in sgn n * (q' * u))"

text \<open>
  \<open>a += 0x6d2b79f5\<close>: a binary64 addition. \<open>NaN\<close> and the infinities stay what they are.
\<close>

definition advance :: "jsnum \<Rightarrow> jsnum" where
  "advance a =
     (case a of
        Finite n \<Rightarrow> Finite (toDouble (n + 0x6d2b79f5))
      | NaN \<Rightarrow> NaN
      | PosInf \<Rightarrow> PosInf
      | NegInf \<Rightarrow> NegInf)"

text \<open>
  The low 32 bits a bitwise operator reads from a number: the value modulo \<open>2^32\<close> for
  an integer-valued number, zero for \<open>NaN\<close> and the infinities.
\<close>

definition bitsOf :: "jsnum \<Rightarrow> int" where
  "bitsOf a = (case a of Finite n \<Rightarrow> toU32 n | NaN \<Rightarrow> 0 | PosInf \<Rightarrow> 0 | NegInf \<Rightarrow> 0)"

text \<open>
  One call of the closure returned by \<open>mulberry32(a)\<close>. The result of the call is the
  final 32-bit value divided by \<open>4294967296\<close>; the function returns the new \<open>a\<close> and
  that 32-bit numerator.
\<close>

definition mulberry32 :: "jsnum \<Rightarrow> jsnum \<times> int" where
  "mulberry32 a =
     (let a' = advance a;
          t0 = bitsOf a';
          t1 = imul (t0 XOR drop_bit 15 t0) (t0 OR 1);
          t2 = t1 XOR toU32 (t1 + imul (t1 XOR drop_bit 7 t1) (t1 OR 61))
      in (a', t2 XOR drop_bit 14 t2))"

text \<open>
  \<open>Math.floor(rng() * k)\<close> for a small positive integer \<open>k\<close>: the product
  \<open>u / 2^32 * k\<close> is exact in binary64, so the floor is \<open>u * k div 2^32\<close>.
\<close>

definition floorRng :: "nat \<Rightarrow> jsnum \<Rightarrow> nat \<times> jsnum" where
  "floorRng k a = (let (a', u) = mulberry32 a in (nat (u * int k div 4294967296), a'))"

text \<open>
  The loop of \<open>shuffle\<close>, for \<open>i\<close> from \<open>array.length - 1\<close> down to 1: draw
  \<open>j = Math.floor(rng() * (i + 1))\<close> and swap the entries at \<open>i\<close> and \<open>j\<close>.
\<close>

fun shuffleLoop :: "nat \<Rightarrow> 'a list \<Rightarrow> jsnum \<Rightarrow> 'a list \<times> jsnum" where
  "shuffleLoop 0 array a = (array, a)"
| "shuffleLoop (Suc i) array a =
     (let (j, a') = floorRng (Suc i + 1) a
      in shuffleLoop i (array[Suc i := array ! j, j := array ! Suc i]) a')"

definition shuffle :: "'a list \<Rightarrow> jsnum \<Rightarrow> 'a list \<times> jsnum" where
  "shuffle list a = shuffleLoop (length list - 1) list a"

section \<open>createGame\<close>

text \<open>The inner loop of \<open>createGame\<close>: one row, for the listed values of \<open>x\<close>.\<close>

fun makeRow :: "archetype_name list \<Rightarrow> int \<Rightarrow> int list \<Rightarrow> jsnum \<Rightarrow> tile list \<times> jsnum" where
  "makeRow pool yy [] a = ([], a)"
| "makeRow pool yy (xx # xs) a =
     (let (k, a1) = floorRng (length pool) a;
          t = \<lparr>x = xx, y = yy, archetype = pool ! k, state = Neutral, leaveCount = 0,
               visits = 0, lastEntry = None, reveal = 0\<rparr>;
          (row, a2) = makeRow pool yy xs a1
      in (t # row, a2))"

text \<open>The outer loop: one row for each listed value of \<open>y\<close>.\<close>

fun makeGrid :: "archetype_name list \<Rightarrow> int list \<Rightarrow> jsnum \<Rightarrow> tile list list \<times> jsnum" where
  "makeGrid pool [] a = ([], a)"
| "makeGrid pool (yy # ys) a =
     (let (row, a1) = makeRow pool yy (map int [0..<nat gridSize]) a;
          (rows, a2) = makeGrid pool ys a1
      in (row # rows, a2))"

text \<open>Reading and updating the tile object \<open>grid[yy][xx]\<close>.\<close>

definition tileAt :: "tile list list \<Rightarrow> int \<Rightarrow> int \<Rightarrow> tile" where
  "tileAt g yy xx = g ! nat yy ! nat xx"

definition updTile :: "(tile \<Rightarrow> tile) \<Rightarrow> int \<Rightarrow> int \<Rightarrow> tile list list \<Rightarrow> tile list list" where
  "updTile f yy xx g = g[nat yy := (g ! nat yy)[nat xx := f (g ! nat yy ! nat xx)]]"

text \<open>
  \<open>createGame(seed)\<close> from the point where \<open>Math.floor(seed * 1e9)\<close> has been computed:
  \<open>a0\<close> is that number. The multiplication and the floor are binary64 operations on the
  argument and are not part of the model.
\<close>

definition newSession :: "jsnum \<Rightarrow> game" where
  "newSession a0 =
     (let (shuffled, a1) = shuffle archetypes a0;
          pool = take 4 shuffled;
          (t1, a2) = floorRng 2 a1;
          (t2, a3) = floorRng 4 a2;
          (t3, a4) = floorRng 2 a3;
          (t4, a5) = floorRng 3 a4;
          th = \<lparr>thirdExit = 3 + t1, frequencyWindow = 6 + t2,
                frequencyCount = 3 + t3, backtrackWindow = 4 + t4\<rparr>;
          (g0, a6) = makeGrid pool (map int [0..<nat gridSize]) a5;
          pl = \<lparr>x = 1, y = 1\<rparr>;
          ex = \<lparr>x = gridSize - 2, y = gridSize - 2\<rparr>;
          g1 = updTile (\<lambda>t. t\<lparr>state := Safe\<rparr>) (y pl) (x pl) g0;
          g2 = updTile (\<lambda>t. t\<lparr>state := Exit\<rparr>) (y ex) (x ex) g1
      in \<lparr>rng = a6, grid = g2, player = pl, exit = ex, moveCount = 0, crystallized = 0,
          recentDirections = [], recentArchetypes = [], recentPositions = [],
          thresholds = th, archetypePool = pool, message = ''Learning...'',
          revealTimer = 0\<rparr>)"

text \<open>
  The parameter of \<open>createGame\<close> is optional: without it the seed is what
  \<open>Math.random()\<close> returns on that call. \<open>random\<close> is that value of the environment
  (after the same conversion).
\<close>

definition createGame :: "jsnum option \<Rightarrow> jsnum \<Rightarrow> game" where
  "createGame seed random = newSession (case seed of None \<Rightarrow> random | Some s \<Rightarrow> s)"

section \<open>The archetype rules\<close>

text \<open>
  \<open>xs.slice(-n)\<close> for a non-negative integer \<open>n\<close>: the last \<open>n\<close> entries, all of
  them when there are fewer; \<open>slice(-0)\<close> is \<open>slice(0)\<close>, the whole array.
\<close>

definition sliceLast :: "nat \<Rightarrow> 'a list \<Rightarrow> 'a list" where
  "sliceLast n xs = (if n = 0 then xs else drop (length xs - n) xs)"

text \<open>
  The \<open>trigger\<close> of each entry of \<open>archetypes\<close>, applied to a tile and the session.
  \<open>every\<close> on an empty array is true and never reads \<open>arr[0]\<close>.
\<close>

fun trigger :: "archetype_name \<Rightarrow> tile \<Rightarrow> game \<Rightarrow> bool" where
  "trigger ThirdExit tile st = (leaveCount tile \<ge> thirdExit (thresholds st))"
| "trigger NorthEntry tile st = (lastEntry tile = Some North)"
| "trigger Sequence tile st =
     (case sliceLast 2 (recentDirections st) of
        [] \<Rightarrow> True
      | d0 # rest \<Rightarrow> list_all (\<lambda>d. d = d0) (d0 # rest))"
| "trigger Frequency tile st =
     (let recent = sliceLast (frequencyWindow (thresholds st)) (recentArchetypes st);
          count = length (filter (\<lambda>entry. entry = archetype tile) recent)
      in count \<ge> frequencyCount (thresholds st))"
| "trigger Backtrack tile st =
     (let recent = sliceLast (backtrackWindow (thresholds st)) (recentPositions st)
      in list_ex (\<lambda>p. x p = x tile \<and> y p = y tile) recent)"

definition flashMessage :: "string \<Rightarrow> game \<Rightarrow> game" where
  "flashMessage m g = g\<lparr>message := m\<rparr>"

text \<open>
  \<open>applyTileRule(tile)\<close>. The argument is a reference to the object \<open>grid[ty][tx]\<close>, so
  the model takes the two indices and reads and writes the tile in the grid.
\<close>

definition applyTileRule :: "int \<Rightarrow> int \<Rightarrow> game \<Rightarrow> game" where
  "applyTileRule ty tx g =
     (let tile = tileAt (grid g) ty tx in
      if state tile = Wall \<or> state tile = Exit then g
      else case find (\<lambda>rule. rule = archetype tile) archetypes of
             None \<Rightarrow> g
           | Some rule \<Rightarrow>
               if trigger rule tile g
               then flashMessage ''A path crystallizes behind you.''
                      (g\<lparr>grid := updTile (\<lambda>t. t\<lparr>state := Wall, reveal := 1\<rparr>) ty tx (grid g),
                         crystallized := crystallized g + 1\<rparr>)
               else g)"

section \<open>The liveness checks\<close>

definition offGrid :: "int \<Rightarrow> int \<Rightarrow> bool" where
  "offGrid nx ny = (nx < 0 \<or> ny < 0 \<or> nx \<ge> gridSize \<or> ny \<ge> gridSize)"

definition isTrapped :: "pos \<Rightarrow> tile list list \<Rightarrow> bool" where
  "isTrapped pl g =
     list_all (\<lambda>dir.
        let nx = x pl + x dir; ny = y pl + y dir in
        if offGrid nx ny then True else state (tileAt g ny nx) = Wall) directions"

text \<open>
  The body of the \<open>for (const dir of directions)\<close> loop of \<open>pathExists\<close>, for one
  direction. \<open>visited\<close> is the array of booleans, read and written at \<open>[ny][nx]\<close> only
  for indices inside the grid; it is modelled as a function of the two indices.
\<close>

definition visitNeighbour ::
  "tile list list \<Rightarrow> pos \<Rightarrow> direction \<Rightarrow> (int \<Rightarrow> int \<Rightarrow> bool) \<times> pos list
     \<Rightarrow> (int \<Rightarrow> int \<Rightarrow> bool) \<times> pos list" where
  "visitNeighbour g current dir vq =
     (let visited = fst vq; queue = snd vq;
          nx = x current + x dir; ny = y current + y dir in
      if offGrid nx ny then vq
      else if visited ny nx then vq
      else if state (tileAt g ny nx) = Wall then vq
      else (visited(ny := (visited ny)(nx := True)), queue @ [\<lparr>x = nx, y = ny\<rparr>]))"

definition visitNeighbours ::
  "tile list list \<Rightarrow> pos \<Rightarrow> (int \<Rightarrow> int \<Rightarrow> bool) \<times> pos list
     \<Rightarrow> (int \<Rightarrow> int \<Rightarrow> bool) \<times> pos list" where
  "visitNeighbours g current vq = fold (visitNeighbour g current) directions vq"

text \<open>
  The \<open>while (queue.length > 0)\<close> loop of \<open>pathExists\<close>. Each round takes the head of
  the queue; every tile pushed is inside the grid and was unmarked, so twice the number of
  unmarked cells plus the queue length decreases.
\<close>

definition unvisited :: "(int \<Rightarrow> int \<Rightarrow> bool) \<Rightarrow> (int \<times> int) set" where
  "unvisited visited = {p \<in> {0..<gridSize} \<times> {0..<gridSize}. \<not> visited (fst p) (snd p)}"

definition bfsMeasure :: "(int \<Rightarrow> int \<Rightarrow> bool) \<times> pos list \<Rightarrow> nat" where
  "bfsMeasure vq = 2 * card (unvisited (fst vq)) + length (snd vq)"

function bfs :: "pos \<Rightarrow> tile list list \<Rightarrow> (int \<Rightarrow> int \<Rightarrow> bool) \<Rightarrow> pos list \<Rightarrow> bool" where
  "bfs goal g visited [] = False"
| "bfs goal g visited (current # rest) =
     (if x current = x goal \<and> y current = y goal then True
      else bfs goal g (fst (visitNeighbours g current (visited, rest)))
                      (snd (visitNeighbours g current (visited, rest))))"
  by pat_completeness auto
termination
proof (relation "measure (\<lambda>(goal, g, visited, queue). bfsMeasure (visited, queue))")
  show "wf (measure (\<lambda>(goal, g, visited, queue). bfsMeasure (visited, queue)))"
    by simp
next
  fix goal :: pos and g visited and current :: pos and rest
  have one: "bfsMeasure (visitNeighbour g current d vq) \<le> bfsMeasure vq" for d vq
  proof (cases "visitNeighbour g current d vq = vq")
    case True
    then show ?thesis by simp
  next
    case False
    define nx where "nx = x current + x d"
    define ny where "ny = y current + y d"
    from False have og: "\<not> offGrid nx ny" and nv: "\<not> fst vq ny nx"
      and eq: "visitNeighbour g current d vq =
                 ((fst vq)(ny := (fst vq ny)(nx := True)), snd vq @ [\<lparr>x = nx, y = ny\<rparr>])"
      by (auto simp: visitNeighbour_def Let_def nx_def ny_def split: if_splits)
    have fin: "finite (unvisited (fst vq))"
      by (simp add: unvisited_def)
    have mem: "(ny, nx) \<in> unvisited (fst vq)"
      using og nv by (auto simp: unvisited_def offGrid_def)
    have upd: "unvisited ((fst vq)(ny := (fst vq ny)(nx := True))) = unvisited (fst vq) - {(ny, nx)}"
      using og nv by (auto simp: unvisited_def offGrid_def)
    have "card (unvisited (fst vq) - {(ny, nx)}) = card (unvisited (fst vq)) - 1"
      using mem fin by (simp add: card_Diff_singleton)
    moreover have "card (unvisited (fst vq)) > 0"
      using mem fin by (auto simp: card_gt_0_iff)
    ultimately show ?thesis
      by (simp add: eq bfsMeasure_def upd)
  qed
  have many: "bfsMeasure (fold (visitNeighbour g current) ds vq) \<le> bfsMeasure vq" for ds vq
  proof (induction ds arbitrary: vq)
    case Nil
    then show ?case by simp
  next
    case (Cons d ds)
    have "bfsMeasure (fold (visitNeighbour g current) ds (visitNeighbour g current d vq))
            \<le> bfsMeasure (visitNeighbour g current d vq)"
      by (rule Cons.IH)
    also have "\<dots> \<le> bfsMeasure vq"
      by (rule one)
    finally show ?case by simp
  qed
  have "bfsMeasure (visitNeighbours g current (visited, rest)) \<le> bfsMeasure (visited, rest)"
    by (simp add: visitNeighbours_def many)
  also have "\<dots> < bfsMeasure (visited, current # rest)"
    by (simp add: bfsMeasure_def)
  finally show "((goal, g, fst (visitNeighbours g current (visited, rest)),
                  snd (visitNeighbours g current (visited, rest))),
                 goal, g, visited, current # rest)
                \<in> measure (\<lambda>(goal, g, visited, queue). bfsMeasure (visited, queue))"
    by simp
qed

text \<open>
  \<open>pathExists(start, goal, grid)\<close>: all cells unmarked, then the start cell marked and
  queued.
\<close>

definition pathExists :: "pos \<Rightarrow> pos \<Rightarrow> tile list list \<Rightarrow> bool" where
  "pathExists start goal g =
     bfs goal g ((\<lambda>_ _. False)(y start := (\<lambda>_. False)(x start := True))) [start]"

definition checkFailure :: "game \<Rightarrow> game" where
  "checkFailure g =
     (if \<not> pathExists (player g) (exit g) (grid g)
      then flashMessage ''The maze has sealed. No route remains.'' g
      else if isTrapped (player g) (grid g)
      then flashMessage ''You are sealed inside your own pattern.'' g
      else g)"

section \<open>draw, reveal and attemptMove\<close>

text \<open>
  The state that \<open>draw()\<close> changes: the reveal countdown and each tile's \<open>reveal\<close>. What
  it writes to the page and the canvas is not part of the session.
\<close>

definition decayReveal :: "tile \<Rightarrow> tile" where
  "decayReveal t = (if reveal t > 0 then t\<lparr>reveal := max 0 (reveal t - 2 / 100)\<rparr> else t)"

definition draw :: "game \<Rightarrow> game" where
  "draw g =
     (let g1 = (if revealTimer g > 0 then g\<lparr>revealTimer := revealTimer g - 1\<rparr> else g)
      in g1\<lparr>grid := map (map decayReveal) (grid g1)\<rparr>)"

text \<open>\<open>xs.push(v)\<close> followed by \<open>if (xs.length > cap) xs.shift()\<close>.\<close>

definition pushCapped :: "nat \<Rightarrow> 'a \<Rightarrow> 'a list \<Rightarrow> 'a list" where
  "pushCapped cap v xs = (let ys = xs @ [v] in if length ys > cap then tl ys else ys)"

text \<open>
  \<open>attemptMove\<close> in three parts, in source order. \<open>vacate\<close> is lines 172 to 175: the
  tile under the player counts one more leave and its rule is applied.
\<close>

definition vacate :: "game \<Rightarrow> game" where
  "vacate g =
     (let cy = y (player g); cx = x (player g);
          g1 = g\<lparr>grid := updTile (\<lambda>t. t\<lparr>leaveCount := leaveCount t + 1\<rparr>) cy cx (grid g)\<rparr>
      in applyTileRule cy cx g1)"

text \<open>
  \<open>enter\<close> is lines 177 to 199: the destination records the entry, the player moves,
  the three histories are pushed, the move is counted and the message reset.
  \<open>direction\<close> is the result of \<open>directions.find\<close>, \<open>None\<close> when the offset is not in
  the table.
\<close>

definition enter :: "direction option \<Rightarrow> int \<Rightarrow> int \<Rightarrow> game \<Rightarrow> game" where
  "enter direction nx ny g =
     (let g1 = g\<lparr>grid := updTile (\<lambda>t. t\<lparr>lastEntry := map_option name direction,
                                          visits := visits t + 1\<rparr>) ny nx (grid g)\<rparr>;
          g2 = g1\<lparr>player := \<lparr>x = nx, y = ny\<rparr>\<rparr>;
          g3 = g2\<lparr>recentDirections :=
                    pushCapped 12 (map_option name direction) (recentDirections g2)\<rparr>;
          g4 = g3\<lparr>recentArchetypes :=
                    pushCapped 20 (archetype (tileAt (grid g3) ny nx)) (recentArchetypes g3)\<rparr>;
          g5 = g4\<lparr>recentPositions := pushCapped 14 \<lparr>x = nx, y = ny\<rparr> (recentPositions g4)\<rparr>
      in g5\<lparr>moveCount := moveCount g5 + 1, message := ''Learning...''\<rparr>)"

text \<open>
  \<open>settle\<close> is lines 201 to 212: the win message on the exit tile, otherwise a neutral
  destination becomes safe and the liveness checks run; either way \<open>draw()\<close> follows.
\<close>

definition settle :: "int \<Rightarrow> int \<Rightarrow> game \<Rightarrow> game" where
  "settle nx ny g =
     (if state (tileAt (grid g) ny nx) = Exit
      then draw (flashMessage ''Exit reached. The maze remembers your path.'' g)
      else
        let g1 = (if state (tileAt (grid g) ny nx) = Neutral
                  then g\<lparr>grid := updTile (\<lambda>t. t\<lparr>state := Safe\<rparr>) ny nx (grid g)\<rparr>
                  else g)
        in draw (checkFailure g1))"

text \<open>
  \<open>attemptMove(dx, dy)\<close> on the global \<open>game\<close>, which is \<open>None\<close> while it is \<open>null\<close>.
\<close>

definition attemptMove :: "int \<Rightarrow> int \<Rightarrow> game option \<Rightarrow> game option" where
  "attemptMove dx dy gm =
     (case gm of
        None \<Rightarrow> None
      | Some g \<Rightarrow>
          let nx = x (player g) + dx; ny = y (player g) + dy in
          if offGrid nx ny then Some g
          else if state (tileAt (grid g) ny nx) = Wall
          then Some (flashMessage ''Crystallized path blocks the way.'' g)
          else
            let direction = find (\<lambda>dir. x dir = dx \<and> y dir = dy) directions
            in Some (settle nx ny (enter direction nx ny (vacate g))))"

text \<open>\<open>reveal()\<close>; the tile field of the same name keeps the plain name.\<close>

definition reveal_fn :: "game option \<Rightarrow> game option" where
  "reveal_fn gm = (case gm of None \<Rightarrow> None | Some g \<Rightarrow> Some (g\<lparr>revealTimer := 60\<rparr>))"

text \<open>
  The operations the page performs on the global session. \<open>draw()\<close> on a \<open>null\<close> session
  raises a TypeError at its first line and leaves the global \<open>null\<close>.
\<close>

datatype core_op =
    CreateGame "jsnum option" jsnum
  | AttemptMove int int
  | Reveal
  | Draw

fun exec :: "core_op \<Rightarrow> game option \<Rightarrow> game option" where
  "exec (CreateGame seed random) gm = Some (createGame seed random)"
| "exec (AttemptMove dx dy) gm = attemptMove dx dy gm"
| "exec Reveal gm = reveal_fn gm"
| "exec Draw gm = map_option draw gm"

definition execAll :: "core_op list \<Rightarrow> game option \<Rightarrow> game option" where
  "execAll ops gm = fold exec ops gm"

section \<open>Well-formed sessions\<close>

text \<open>
  What \<open>createGame\<close> establishes and every operation keeps: the grid is \<open>gridSize\<close> rows
  of \<open>gridSize\<close> tiles, each tile carries its own indices, player and exit are inside the
  grid and the tile at the exit has state \<open>exit\<close>. Every array read of the source is in
  range in such a session.
\<close>

definition gridShape :: "tile list list \<Rightarrow> bool" where
  "gridShape g = (length g = nat gridSize \<and> list_all (\<lambda>row. length row = nat gridSize) g)"

definition coordsOk :: "tile list list \<Rightarrow> bool" where
  "coordsOk g =
     list_all (\<lambda>yy. list_all (\<lambda>xx. x (tileAt g yy xx) = xx \<and> y (tileAt g yy xx) = yy)
                 (map int [0..<nat gridSize]))
       (map int [0..<nat gridSize])"

definition inGrid :: "pos \<Rightarrow> bool" where
  "inGrid p = (\<not> offGrid (x p) (y p))"

definition wf_game :: "game \<Rightarrow> bool" where
  "wf_game g =
     (gridShape (grid g) \<and> coordsOk (grid g) \<and> inGrid (player g) \<and> inGrid (exit g) \<and>
      state (tileAt (grid g) (y (exit g)) (x (exit g))) = Exit)"

text \<open>The number of tiles of the grid whose state is \<open>wall\<close>.\<close>

definition wallCount :: "tile list list \<Rightarrow> nat" where
  "wallCount g = length (filter (\<lambda>t. state t = Wall) (concat g))"

text \<open>A move is accepted when the session exists, the destination is inside and no wall.\<close>

definition accepted :: "int \<Rightarrow> int \<Rightarrow> game option \<Rightarrow> bool" where
  "accepted dx dy gm =
     (case gm of
        None \<Rightarrow> False
      | Some g \<Rightarrow>
          \<not> offGrid (x (player g) + dx) (y (player g) + dy) \<and>
          state (tileAt (grid g) (y (player g) + dy) (x (player g) + dx)) \<noteq> Wall)"

text \<open>A sequence of \<open>attemptMove\<close> calls, each given by its offset \<open>(dx, dy)\<close>.\<close>

definition moves :: "(int \<times> int) list \<Rightarrow> game option \<Rightarrow> game option" where
  "moves ms gm = fold (\<lambda>m. attemptMove (fst m) (snd m)) ms gm"

text \<open>
  The session after a sequence of moves. \<open>attemptMove\<close> never discards a session, so
  \<open>moves\<close> on an existing session always returns one.
\<close>

definition play :: "(int \<times> int) list \<Rightarrow> game \<Rightarrow> game" where
  "play ms g = the (moves ms (Some g))"

section \<open>Auxiliary notions for the proofs\<close>

text \<open>
  \<open>ruleFires ty tx g\<close>: \<open>applyTileRule\<close> on the tile at \<open>[ty][tx]\<close> passes its guard
  and the tile's trigger is true, so the tile is turned into a wall.
\<close>

definition ruleFires :: "int \<Rightarrow> int \<Rightarrow> game \<Rightarrow> bool" where
  "ruleFires ty tx g =
     (state (tileAt (grid g) ty tx) \<noteq> Wall \<and> state (tileAt (grid g) ty tx) \<noteq> Exit \<and>
      trigger (archetype (tileAt (grid g) ty tx)) (tileAt (grid g) ty tx) g)"

text \<open>The message \<open>checkFailure\<close> leaves in the session.\<close>

definition checkMessage :: "game \<Rightarrow> string" where
  "checkMessage g =
     (if \<not> pathExists (player g) (exit g) (grid g)
      then ''The maze has sealed. No route remains.''
      else if isTrapped (player g) (grid g)
      then ''You are sealed inside your own pattern.''
      else message g)"

text \<open>
  What every operation keeps of a tile: its indices and archetype, and the states
  \<open>wall\<close> and \<open>exit\<close>.
\<close>

definition tileKeeps :: "tile \<Rightarrow> tile \<Rightarrow> bool" where
  "tileKeeps t t' =
     (x t' = x t \<and> y t' = y t \<and> archetype t' = archetype t \<and>
      (state t = Wall \<longrightarrow> state t' = Wall) \<and> (state t' = Exit) = (state t = Exit))"

definition gridKeeps :: "tile list list \<Rightarrow> tile list list \<Rightarrow> bool" where
  "gridKeeps g g' =
     (gridShape g' \<and> (\<forall>yy xx. \<not> offGrid xx yy \<longrightarrow> tileKeeps (tileAt g yy xx) (tileAt g' yy xx)))"

text \<open>
  \<open>crystallizes g\<close>: the rule of the tile under the player fires when the player leaves
  it, that is, with the leave just counted and the histories as they are before the move.
\<close>

definition crystallizes :: "game \<Rightarrow> bool" where
  "crystallizes g =
     (let t = tileAt (grid g) (y (player g)) (x (player g)) in
      state t \<noteq> Wall \<and> state t \<noteq> Exit \<and>
      trigger (archetype t) (t\<lparr>leaveCount := leaveCount t + 1\<rparr>) g)"

text \<open>
  \<open>hardenedBehind g\<close>: every recorded position is inside the grid, and every recorded
  position other than the player's whose tile has archetype \<open>backtrack\<close> is a wall or the
  exit.
\<close>

definition hardenedBehind :: "game \<Rightarrow> bool" where
  "hardenedBehind g =
     (\<forall>p\<in>set (recentPositions g). inGrid p \<and>
        (p \<noteq> player g \<longrightarrow> archetype (tileAt (grid g) (y p) (x p)) = Backtrack \<longrightarrow>
           state (tileAt (grid g) (y p) (x p)) = Wall \<or> state (tileAt (grid g) (y p) (x p)) = Exit))"

text \<open>The name pushed to \<open>recentDirections\<close> for an offset.\<close>

definition dirName :: "int \<times> int \<Rightarrow> direction_name option" where
  "dirName m = map_option name (find (\<lambda>dir. x dir = fst m \<and> y dir = snd m) directions)"

text \<open>
  \<open>drawAt k a n\<close>: the value of \<open>Math.floor(rng() * k)\<close> at the call number \<open>n + 1\<close>
  after the generator state \<open>a\<close>. The state a call leaves does not depend on what the
  call returns, so the state before that call is \<open>a\<close> advanced \<open>n\<close> times.
\<close>

definition drawAt :: "nat \<Rightarrow> jsnum \<Rightarrow> nat \<Rightarrow> nat" where
  "drawAt k a n = fst (floorRng k ((advance ^^ n) a))"

section \<open>Grids: shape, reads and updates\<close>

lemma inside_iff: "\<not> offGrid xx yy \<longleftrightarrow> 0 \<le> xx \<and> xx < 18 \<and> 0 \<le> yy \<and> yy < 18"
  by (auto simp: offGrid_def gridSize_def)

lemma list_all_cols:
  "list_all P (map int [0..<nat gridSize]) \<longleftrightarrow> (\<forall>i. 0 \<le> i \<and> i < gridSize \<longrightarrow> P i)"
proof
  assume h: "list_all P (map int [0..<nat gridSize])"
  show "\<forall>i. 0 \<le> i \<and> i < gridSize \<longrightarrow> P i"
  proof (intro allI impI)
    fix i :: int assume i: "0 \<le> i \<and> i < gridSize"
    then have m: "nat i \<in> set [0..<nat gridSize]" by simp
    from h have "\<forall>k\<in>set [0..<nat gridSize]. P (int k)"
      by (simp add: list_all_iff)
    then have "P (int (nat i))" using m by (rule bspec)
    with i show "P i" by simp
  qed
next
  assume "\<forall>i. 0 \<le> i \<and> i < gridSize \<longrightarrow> P i"
  then show "list_all P (map int [0..<nat gridSize])"
    by (auto simp: list_all_iff)
qed

lemma coordsOk_iff:
  "coordsOk g \<longleftrightarrow> (\<forall>yy xx. \<not> offGrid xx yy \<longrightarrow> x (tileAt g yy xx) = xx \<and> y (tileAt g yy xx) = yy)"
  unfolding coordsOk_def list_all_cols by (auto simp: offGrid_def)

lemma gridShape_updTile: "gridShape (updTile f yy xx g) = gridShape g"
proof -
  have "length (updTile f yy xx g ! n) = length (g ! n)" for n
    by (cases "n = nat yy"; cases "nat yy < length g") (auto simp: updTile_def list_update_beyond)
  moreover have "length (updTile f yy xx g) = length g"
    by (simp add: updTile_def)
  ultimately show ?thesis
    by (simp add: gridShape_def list_all_length)
qed

lemma gridShape_map: "gridShape (map (map f) g) = gridShape g"
  by (auto simp: gridShape_def list_all_length)

lemma tileAt_updTile:
  assumes "gridShape g" "\<not> offGrid xx yy" "\<not> offGrid xx' yy'"
  shows "tileAt (updTile f yy xx g) yy' xx' =
           (if yy' = yy \<and> xx' = xx then f (tileAt g yy xx) else tileAt g yy' xx')"
proof -
  from assms have b: "nat yy < length g" "nat yy' < length g"
    "nat xx < length (g ! nat yy)" "nat xx' < length (g ! nat yy')"
    by (auto simp: gridShape_def list_all_length inside_iff gridSize_def)
  from assms have e: "nat yy' = nat yy \<longleftrightarrow> yy' = yy" "nat xx' = nat xx \<longleftrightarrow> xx' = xx"
    by (auto simp: inside_iff)
  show ?thesis
    using b e by (auto simp: tileAt_def updTile_def nth_list_update)
qed

lemma tileAt_map:
  assumes "gridShape g" "\<not> offGrid xx yy"
  shows "tileAt (map (map f) g) yy xx = f (tileAt g yy xx)"
proof -
  from assms have "nat yy < length g" "nat xx < length (g ! nat yy)"
    by (auto simp: gridShape_def list_all_length inside_iff gridSize_def)
  then show ?thesis by (simp add: tileAt_def)
qed

lemma count_update:
  assumes "i < length xs"
  shows "length (filter P (xs[i := v])) + (if P (xs ! i) then 1 else 0)
           = length (filter P xs) + (if P v then 1 else 0)"
  using assms
proof (induction xs arbitrary: i)
  case Nil
  then show ?case by simp
next
  case (Cons a xs)
  then show ?case by (cases i) auto
qed

lemma wallCount_rows: "wallCount g = sum_list (map (\<lambda>row. length (filter (\<lambda>t. state t = Wall) row)) g)"
  unfolding wallCount_def by (induction g) auto

lemma sum_list_row_update:
  fixes c :: "'a \<Rightarrow> nat"
  assumes "i < length g"
  shows "sum_list (map c (g[i := r])) + c (g ! i) = sum_list (map c g) + c r"
  using assms
proof (induction g arbitrary: i)
  case Nil
  then show ?case by simp
next
  case (Cons a g)
  then show ?case by (cases i) auto
qed

lemma wallCount_updTile:
  assumes "gridShape g" "\<not> offGrid xx yy"
  shows "wallCount (updTile f yy xx g) + (if state (tileAt g yy xx) = Wall then 1 else 0)
           = wallCount g + (if state (f (tileAt g yy xx)) = Wall then 1 else 0)"
proof -
  let ?c = "\<lambda>row. length (filter (\<lambda>t. state t = Wall) row)"
  from assms have b: "nat yy < length g" "nat xx < length (g ! nat yy)"
    by (auto simp: gridShape_def list_all_length inside_iff gridSize_def)
  have r: "?c ((g ! nat yy)[nat xx := f (g ! nat yy ! nat xx)]) + (if state (g ! nat yy ! nat xx) = Wall then 1 else 0)
          = ?c (g ! nat yy) + (if state (f (g ! nat yy ! nat xx)) = Wall then 1 else 0)"
    using count_update[OF b(2), of "\<lambda>t. state t = Wall" "f (g ! nat yy ! nat xx)"] by simp
  have s: "sum_list (map ?c (g[nat yy := (g ! nat yy)[nat xx := f (g ! nat yy ! nat xx)]])) + ?c (g ! nat yy)
          = sum_list (map ?c g) + ?c ((g ! nat yy)[nat xx := f (g ! nat yy ! nat xx)])"
    by (rule sum_list_row_update[OF b(1)])
  show ?thesis
    using r s unfolding wallCount_rows updTile_def tileAt_def by (auto split: if_splits)
qed

lemma wallCount_map:
  assumes "\<And>t. state (f t) = state t"
  shows "wallCount (map (map f) g) = wallCount g"
proof -
  have "length (filter (\<lambda>t. state t = Wall) (map f row)) = length (filter (\<lambda>t. state t = Wall) row)" for row
    by (induction row) (auto simp: assms)
  then show ?thesis
    unfolding wallCount_rows by (simp add: comp_def)
qed

section \<open>What the rule engine keeps\<close>

lemma tileKeeps_refl: "tileKeeps t t"
  by (simp add: tileKeeps_def)

lemma tileKeeps_trans: "tileKeeps a b \<Longrightarrow> tileKeeps b c \<Longrightarrow> tileKeeps a c"
  unfolding tileKeeps_def by auto

lemma gridKeeps_refl: "gridShape g \<Longrightarrow> gridKeeps g g"
  by (simp add: gridKeeps_def tileKeeps_refl)

lemma gridKeeps_trans: "gridKeeps a b \<Longrightarrow> gridKeeps b c \<Longrightarrow> gridKeeps a c"
  unfolding gridKeeps_def by (blast intro: tileKeeps_trans)

lemma gridKeeps_updTile:
  assumes "gridShape g" "\<not> offGrid xx yy" "tileKeeps (tileAt g yy xx) (f (tileAt g yy xx))"
  shows "gridKeeps g (updTile f yy xx g)"
  using assms by (auto simp: gridKeeps_def gridShape_updTile tileAt_updTile tileKeeps_refl)

lemma gridKeeps_map:
  assumes "gridShape g" "\<And>t. tileKeeps t (f t)"
  shows "gridKeeps g (map (map f) g)"
  using assms by (auto simp: gridKeeps_def gridShape_map tileAt_map)

lemma find_archetype: "find (\<lambda>rule. rule = a) archetypes = Some a"
  by (cases a) (simp_all add: archetypes_def)

lemma applyTileRule_eq:
  "applyTileRule ty tx g =
     (if ruleFires ty tx g
      then g\<lparr>grid := updTile (\<lambda>t. t\<lparr>state := Wall, reveal := 1\<rparr>) ty tx (grid g),
             crystallized := crystallized g + 1,
             message := ''A path crystallizes behind you.''\<rparr>
      else g)"
  by (simp add: applyTileRule_def ruleFires_def Let_def find_archetype flashMessage_def)

lemma trigger_grid_irrelevant: "trigger a t (g\<lparr>grid := gr\<rparr>) = trigger a t g"
  by (cases a) simp_all

lemma checkFailure_eq: "checkFailure g = g\<lparr>message := checkMessage g\<rparr>"
  by (simp add: checkFailure_def checkMessage_def flashMessage_def)

lemma tileKeeps_decay: "tileKeeps t (decayReveal t)"
  by (simp add: tileKeeps_def decayReveal_def)

section \<open>The three parts of an accepted move\<close>

lemma vacate_fields:
  "player (vacate g) = player g" "exit (vacate g) = exit g"
  "moveCount (vacate g) = moveCount g"
  "recentDirections (vacate g) = recentDirections g"
  "recentArchetypes (vacate g) = recentArchetypes g"
  "recentPositions (vacate g) = recentPositions g"
  "thresholds (vacate g) = thresholds g"
  "archetypePool (vacate g) = archetypePool g"
  "rng (vacate g) = rng g" "revealTimer (vacate g) = revealTimer g"
  by (simp_all add: vacate_def Let_def applyTileRule_eq)

lemma vacate_grid:
  assumes "gridShape (grid g)" "inGrid (player g)"
  shows "gridKeeps (grid g) (grid (vacate g))"
proof -
  let ?cy = "y (player g)" and ?cx = "x (player g)"
  let ?G1 = "updTile (\<lambda>t. t\<lparr>leaveCount := leaveCount t + 1\<rparr>) ?cy ?cx (grid g)"
  from assms have og: "\<not> offGrid ?cx ?cy" by (simp add: inGrid_def)
  have k1: "gridKeeps (grid g) ?G1"
    by (rule gridKeeps_updTile[OF assms(1) og]) (simp add: tileKeeps_def)
  then have s1: "gridShape ?G1" by (simp add: gridKeeps_def)
  show ?thesis
  proof (cases "ruleFires ?cy ?cx (g\<lparr>grid := ?G1\<rparr>)")
    case True
    then have "tileKeeps (tileAt ?G1 ?cy ?cx) ((tileAt ?G1 ?cy ?cx)\<lparr>state := Wall, reveal := 1\<rparr>)"
      by (simp add: ruleFires_def tileKeeps_def)
    then have "gridKeeps ?G1 (updTile (\<lambda>t. t\<lparr>state := Wall, reveal := 1\<rparr>) ?cy ?cx ?G1)"
      by (rule gridKeeps_updTile[OF s1 og])
    with k1 have "gridKeeps (grid g) (updTile (\<lambda>t. t\<lparr>state := Wall, reveal := 1\<rparr>) ?cy ?cx ?G1)"
      by (rule gridKeeps_trans)
    with True show ?thesis
      by (simp add: vacate_def Let_def applyTileRule_eq)
  next
    case False
    with k1 show ?thesis
      by (simp add: vacate_def Let_def applyTileRule_eq)
  qed
qed

lemma vacate_count:
  assumes "gridShape (grid g)" "inGrid (player g)"
  shows "crystallized (vacate g) + wallCount (grid g) = crystallized g + wallCount (grid (vacate g))"
proof -
  let ?cy = "y (player g)" and ?cx = "x (player g)"
  let ?inc = "\<lambda>t::tile. t\<lparr>leaveCount := leaveCount t + 1\<rparr>"
  let ?wall = "\<lambda>t::tile. t\<lparr>state := Wall, reveal := 1\<rparr>"
  let ?G1 = "updTile ?inc ?cy ?cx (grid g)"
  from assms have og: "\<not> offGrid ?cx ?cy" by (simp add: inGrid_def)
  have s1: "gridShape ?G1" using assms(1) by (simp add: gridShape_updTile)
  have w1: "wallCount ?G1 = wallCount (grid g)"
    using wallCount_updTile[OF assms(1) og, of ?inc] by simp
  show ?thesis
  proof (cases "ruleFires ?cy ?cx (g\<lparr>grid := ?G1\<rparr>)")
    case True
    then have nw: "state (tileAt ?G1 ?cy ?cx) \<noteq> Wall" by (simp add: ruleFires_def)
    have "wallCount (updTile ?wall ?cy ?cx ?G1) = wallCount ?G1 + 1"
      using wallCount_updTile[OF s1 og, of ?wall] nw by simp
    with True w1 show ?thesis
      by (simp add: vacate_def Let_def applyTileRule_eq)
  next
    case False
    with w1 show ?thesis
      by (simp add: vacate_def Let_def applyTileRule_eq)
  qed
qed

lemma enter_fields:
  "player (enter d nx ny g) = \<lparr>x = nx, y = ny\<rparr>" "exit (enter d nx ny g) = exit g"
  "moveCount (enter d nx ny g) = moveCount g + 1"
  "crystallized (enter d nx ny g) = crystallized g"
  "thresholds (enter d nx ny g) = thresholds g"
  "archetypePool (enter d nx ny g) = archetypePool g"
  "rng (enter d nx ny g) = rng g" "revealTimer (enter d nx ny g) = revealTimer g"
  "message (enter d nx ny g) = ''Learning...''"
  "recentDirections (enter d nx ny g) = pushCapped 12 (map_option name d) (recentDirections g)"
  "recentPositions (enter d nx ny g) = pushCapped 14 \<lparr>x = nx, y = ny\<rparr> (recentPositions g)"
  "grid (enter d nx ny g) =
     updTile (\<lambda>t. t\<lparr>lastEntry := map_option name d, visits := visits t + 1\<rparr>) ny nx (grid g)"
  by (simp_all add: enter_def Let_def)

lemma enter_grid:
  assumes "gridShape (grid g)" "\<not> offGrid nx ny"
  shows "gridKeeps (grid g) (grid (enter d nx ny g))"
  unfolding enter_fields
  by (rule gridKeeps_updTile[OF assms]) (simp add: tileKeeps_def)

lemma enter_count:
  assumes "gridShape (grid g)" "\<not> offGrid nx ny"
  shows "wallCount (grid (enter d nx ny g)) = wallCount (grid g)"
  unfolding enter_fields
  using wallCount_updTile[OF assms, of "\<lambda>t. t\<lparr>lastEntry := map_option name d, visits := visits t + 1\<rparr>"]
  by simp

lemma draw_fields:
  "player (draw g) = player g" "exit (draw g) = exit g"
  "moveCount (draw g) = moveCount g" "crystallized (draw g) = crystallized g"
  "recentDirections (draw g) = recentDirections g"
  "recentArchetypes (draw g) = recentArchetypes g"
  "recentPositions (draw g) = recentPositions g"
  "thresholds (draw g) = thresholds g" "archetypePool (draw g) = archetypePool g"
  "rng (draw g) = rng g" "message (draw g) = message g"
  "grid (draw g) = map (map decayReveal) (grid g)"
  by (simp_all add: draw_def Let_def)

lemma draw_grid: "gridShape (grid g) \<Longrightarrow> gridKeeps (grid g) (grid (draw g))"
  unfolding draw_fields by (rule gridKeeps_map) (simp_all add: tileKeeps_decay)

lemma draw_count: "wallCount (grid (draw g)) = wallCount (grid g)"
  unfolding draw_fields by (rule wallCount_map) (simp add: decayReveal_def)

lemma settle_fields:
  "player (settle nx ny g) = player g" "exit (settle nx ny g) = exit g"
  "moveCount (settle nx ny g) = moveCount g" "crystallized (settle nx ny g) = crystallized g"
  "recentDirections (settle nx ny g) = recentDirections g"
  "recentArchetypes (settle nx ny g) = recentArchetypes g"
  "recentPositions (settle nx ny g) = recentPositions g"
  "thresholds (settle nx ny g) = thresholds g" "archetypePool (settle nx ny g) = archetypePool g"
  "rng (settle nx ny g) = rng g"
  by (simp_all add: settle_def Let_def draw_fields checkFailure_eq flashMessage_def)

lemma settle_grid:
  assumes "gridShape (grid g)" "\<not> offGrid nx ny"
  shows "gridKeeps (grid g) (grid (settle nx ny g))"
proof -
  let ?safe = "\<lambda>t::tile. t\<lparr>state := Safe\<rparr>"
  have a: "state (tileAt (grid g) ny nx) = Neutral \<Longrightarrow> gridKeeps (grid g) (updTile ?safe ny nx (grid g))"
    by (rule gridKeeps_updTile[OF assms]) (simp add: tileKeeps_def)
  have b: "gridShape G \<Longrightarrow> gridKeeps (grid g) G \<Longrightarrow> gridKeeps (grid g) (map (map decayReveal) G)" for G
    by (rule gridKeeps_trans[of _ G]) (simp_all add: gridKeeps_map tileKeeps_decay)
  have c: "gridKeeps (grid g) (grid g)" by (rule gridKeeps_refl[OF assms(1)])
  show ?thesis
    using a b[OF assms(1) c] b[of "updTile ?safe ny nx (grid g)"] assms(1)
    by (simp add: settle_def Let_def draw_fields checkFailure_eq flashMessage_def gridShape_updTile)
qed

lemma settle_count:
  assumes "gridShape (grid g)" "\<not> offGrid nx ny"
  shows "wallCount (grid (settle nx ny g)) = wallCount (grid g)"
proof -
  let ?safe = "\<lambda>t::tile. t\<lparr>state := Safe\<rparr>"
  have a: "state (tileAt (grid g) ny nx) = Neutral \<Longrightarrow> wallCount (updTile ?safe ny nx (grid g)) = wallCount (grid g)"
    using wallCount_updTile[OF assms, of ?safe] by simp
  have b: "wallCount (map (map decayReveal) G) = wallCount G" for G
    by (rule wallCount_map) (simp add: decayReveal_def)
  show ?thesis
    using a by (simp add: settle_def Let_def draw_fields checkFailure_eq flashMessage_def b)
qed

section \<open>attemptMove keeps sessions well-formed\<close>

lemma attemptMove_None: "attemptMove dx dy None = None"
  by (simp add: attemptMove_def)

lemma attemptMove_offGrid:
  "offGrid (x (player g) + dx) (y (player g) + dy) \<Longrightarrow> attemptMove dx dy (Some g) = Some g"
  by (simp add: attemptMove_def Let_def)

lemma attemptMove_blocked:
  "\<not> offGrid (x (player g) + dx) (y (player g) + dy) \<Longrightarrow>
   state (tileAt (grid g) (y (player g) + dy) (x (player g) + dx)) = Wall \<Longrightarrow>
   attemptMove dx dy (Some g) = Some (g\<lparr>message := ''Crystallized path blocks the way.''\<rparr>)"
  by (simp add: attemptMove_def Let_def flashMessage_def)

lemma attemptMove_accepted:
  "accepted dx dy (Some g) \<Longrightarrow>
   attemptMove dx dy (Some g) =
     Some (settle (x (player g) + dx) (y (player g) + dy)
            (enter (find (\<lambda>dir. x dir = dx \<and> y dir = dy) directions)
               (x (player g) + dx) (y (player g) + dy) (vacate g)))"
  by (simp add: attemptMove_def accepted_def Let_def)

lemma attemptMove_cases:
  obtains (offGrid) "offGrid (x (player g) + dx) (y (player g) + dy)"
      "attemptMove dx dy (Some g) = Some g"
  | (blocked) "\<not> offGrid (x (player g) + dx) (y (player g) + dy)"
      "state (tileAt (grid g) (y (player g) + dy) (x (player g) + dx)) = Wall"
      "attemptMove dx dy (Some g) = Some (g\<lparr>message := ''Crystallized path blocks the way.''\<rparr>)"
  | (accepted) "accepted dx dy (Some g)"
      "attemptMove dx dy (Some g) =
         Some (settle (x (player g) + dx) (y (player g) + dy)
                (enter (find (\<lambda>dir. x dir = dx \<and> y dir = dy) directions)
                   (x (player g) + dx) (y (player g) + dy) (vacate g)))"
proof (cases "offGrid (x (player g) + dx) (y (player g) + dy)")
  case True
  then show ?thesis using offGrid attemptMove_offGrid by blast
next
  case og: False
  show ?thesis
  proof (cases "state (tileAt (grid g) (y (player g) + dy) (x (player g) + dx)) = Wall")
    case True
    then show ?thesis using blocked og attemptMove_blocked by blast
  next
    case False
    with og have "accepted dx dy (Some g)" by (simp add: accepted_def)
    then show ?thesis using accepted attemptMove_accepted by blast
  qed
qed

lemma accepted_steps:
  assumes wf: "wf_game g" and acc: "accepted dx dy (Some g)"
  defines "nx \<equiv> x (player g) + dx" and "ny \<equiv> y (player g) + dy"
  defines "g1 \<equiv> vacate g"
  defines "g2 \<equiv> enter (find (\<lambda>dir. x dir = dx \<and> y dir = dy) directions) nx ny g1"
  defines "g3 \<equiv> settle nx ny g2"
  shows "attemptMove dx dy (Some g) = Some g3"
    and "\<not> offGrid nx ny"
    and "gridKeeps (grid g) (grid g1)" and "gridKeeps (grid g1) (grid g2)"
    and "gridKeeps (grid g2) (grid g3)" and "gridKeeps (grid g) (grid g3)"
    and "crystallized g3 + wallCount (grid g) = crystallized g + wallCount (grid g3)"
    and "player g3 = \<lparr>x = nx, y = ny\<rparr>" and "exit g3 = exit g"
proof -
  from wf have sh: "gridShape (grid g)" and ip: "inGrid (player g)"
    by (simp_all add: wf_game_def)
  show eq: "attemptMove dx dy (Some g) = Some g3"
    using attemptMove_accepted[OF acc] by (simp add: g3_def g2_def g1_def nx_def ny_def)
  show og: "\<not> offGrid nx ny"
    using acc by (simp add: accepted_def nx_def ny_def)
  show k1: "gridKeeps (grid g) (grid g1)"
    unfolding g1_def by (rule vacate_grid[OF sh ip])
  then have s1: "gridShape (grid g1)" by (simp add: gridKeeps_def)
  show k2: "gridKeeps (grid g1) (grid g2)"
    unfolding g2_def by (rule enter_grid[OF s1 og])
  then have s2: "gridShape (grid g2)" by (simp add: gridKeeps_def)
  show k3: "gridKeeps (grid g2) (grid g3)"
    unfolding g3_def by (rule settle_grid[OF s2 og])
  show "gridKeeps (grid g) (grid g3)"
    using k1 k2 k3 by (blast intro: gridKeeps_trans)
  have c1: "crystallized g1 + wallCount (grid g) = crystallized g + wallCount (grid g1)"
    unfolding g1_def by (rule vacate_count[OF sh ip])
  have c2: "wallCount (grid g2) = wallCount (grid g1)"
    unfolding g2_def by (rule enter_count[OF s1 og])
  have c2': "crystallized g2 = crystallized g1"
    unfolding g2_def by (simp add: enter_fields)
  have c3: "wallCount (grid g3) = wallCount (grid g2)"
    unfolding g3_def by (rule settle_count[OF s2 og])
  have c3': "crystallized g3 = crystallized g2"
    unfolding g3_def by (simp add: settle_fields)
  show "crystallized g3 + wallCount (grid g) = crystallized g + wallCount (grid g3)"
    using c1 c2 c2' c3 c3' by simp
  show "player g3 = \<lparr>x = nx, y = ny\<rparr>"
    by (simp add: g3_def g2_def settle_fields enter_fields)
  show "exit g3 = exit g"
    by (simp add: g3_def g2_def g1_def settle_fields enter_fields vacate_fields)
qed

lemma wf_from_gridKeeps:
  assumes "wf_game g" "gridKeeps (grid g) (grid g')" "exit g' = exit g" "inGrid (player g')"
  shows "wf_game g'"
proof -
  from assms(1) have c: "coordsOk (grid g)" and ie: "inGrid (exit g)"
    and ex: "state (tileAt (grid g) (y (exit g)) (x (exit g))) = Exit"
    by (simp_all add: wf_game_def)
  from assms(2) have sh: "gridShape (grid g')"
    and tk: "\<And>yy xx. \<not> offGrid xx yy \<Longrightarrow> tileKeeps (tileAt (grid g) yy xx) (tileAt (grid g') yy xx)"
    by (simp_all add: gridKeeps_def)
  have "coordsOk (grid g')"
    unfolding coordsOk_iff
  proof (intro allI impI)
    fix yy xx assume og: "\<not> offGrid xx yy"
    from tk[OF og] c og show "x (tileAt (grid g') yy xx) = xx \<and> y (tileAt (grid g') yy xx) = yy"
      by (simp add: tileKeeps_def coordsOk_iff)
  qed
  moreover have "state (tileAt (grid g') (y (exit g)) (x (exit g))) = Exit"
    using tk[of "x (exit g)" "y (exit g)"] ie ex by (simp add: inGrid_def tileKeeps_def)
  ultimately show ?thesis
    using sh ie assms(3,4) by (simp add: wf_game_def)
qed

lemma attemptMove_inv:
  assumes wf: "wf_game g" and eq: "attemptMove dx dy (Some g) = Some g'"
  shows "wf_game g'" and "gridKeeps (grid g) (grid g')" and "exit g' = exit g"
    and "crystallized g' + wallCount (grid g) = crystallized g + wallCount (grid g')"
proof -
  from wf have sh: "gridShape (grid g)" and ip: "inGrid (player g)"
    by (simp_all add: wf_game_def)
  have "wf_game g' \<and> gridKeeps (grid g) (grid g') \<and> exit g' = exit g \<and>
        crystallized g' + wallCount (grid g) = crystallized g + wallCount (grid g')"
  proof (cases rule: attemptMove_cases[of g dx dy])
    case offGrid
    with eq wf sh show ?thesis by (simp add: gridKeeps_refl)
  next
    case blocked
    with eq have g': "g' = g\<lparr>message := ''Crystallized path blocks the way.''\<rparr>" by simp
    with wf sh show ?thesis by (simp add: gridKeeps_refl wf_game_def)
  next
    case accepted
    note st = accepted_steps[OF wf accepted(1)]
    from st(1) eq have g': "g' = settle (x (player g) + dx) (y (player g) + dy)
        (enter (find (\<lambda>dir. x dir = dx \<and> y dir = dy) directions)
           (x (player g) + dx) (y (player g) + dy) (vacate g))" by simp
    have "inGrid (player g')"
      using st(2) st(8) unfolding g' by (simp add: inGrid_def)
    with wf st(6) st(9) have "wf_game g'"
      unfolding g' by (rule wf_from_gridKeeps)
    with st(6,7,9) show ?thesis unfolding g' by simp
  qed
  then show "wf_game g'" and "gridKeeps (grid g) (grid g')" and "exit g' = exit g"
    and "crystallized g' + wallCount (grid g) = crystallized g + wallCount (grid g')"
    by simp_all
qed

section \<open>The generator state after a number of calls\<close>

lemma funpow_funpow: "(f ^^ m) ((f ^^ n) a) = (f ^^ (m + n)) a"
  by (simp add: funpow_add)

lemma toDouble_exact:
  assumes "\<bar>n\<bar> < 9007199254740992"
  shows "toDouble n = n"
proof -
  from assms have "spacing \<bar>n\<bar> = 1" by (simp add: spacing.simps[of "\<bar>n\<bar>"])
  then show ?thesis by (simp add: toDouble_def Let_def mult_sgn_abs)
qed

lemma advance_exact:
  assumes "0 \<le> n" "n + 0x6d2b79f5 < 9007199254740992"
  shows "advance (Finite n) = Finite (n + 0x6d2b79f5)"
  using assms by (simp add: advance_def toDouble_exact)

lemma funpow_advance_exact:
  assumes "0 \<le> n" "n + int k * 0x6d2b79f5 < 9007199254740992"
  shows "(advance ^^ k) (Finite n) = Finite (n + int k * 0x6d2b79f5)"
  using assms
proof (induction k)
  case 0
  then show ?case by simp
next
  case (Suc k)
  from Suc.prems have b: "n + int k * 0x6d2b79f5 < 9007199254740992"
    and c: "n + int k * 0x6d2b79f5 + 0x6d2b79f5 < 9007199254740992"
    and d: "0 \<le> n + int k * 0x6d2b79f5"
    by (simp_all add: algebra_simps)
  from Suc.IH[OF Suc.prems(1) b] advance_exact[OF d c] show ?case
    by (simp add: algebra_simps)
qed

lemma drawAt_exact:
  assumes "0 \<le> n" "n + int k * 0x6d2b79f5 < 9007199254740992"
  shows "drawAt m (Finite n) k = fst (floorRng m (Finite (n + int k * 0x6d2b79f5)))"
  by (simp add: drawAt_def funpow_advance_exact[OF assms])

text \<open>
  Above \<open>2^53\<close> the addition rounds: the exact sum \<open>2^53 + 1831565813\<close> is odd and lies
  half way between two binary64 values; the one with the even significand is returned.
\<close>

lemma advance_rounds: "advance (Finite 9007199254740992) = Finite 9007201086306804"
  by code_simp

lemma floorRng_snd: "snd (floorRng k a) = advance a"
  by (simp add: floorRng_def mulberry32_def Let_def)

lemma floorRng_pair: "floorRng k a = (drawAt k a 0, advance a)"
  using floorRng_snd[of k a] by (simp add: drawAt_def prod_eq_iff)

lemma floorRng_funpow: "floorRng k ((advance ^^ n) a) = (drawAt k a n, (advance ^^ Suc n) a)"
  using floorRng_snd[of k "(advance ^^ n) a"] by (simp add: drawAt_def prod_eq_iff)

lemma drawAt_shift: "drawAt k (advance a) n = drawAt k a (Suc n)"
  by (simp add: drawAt_def funpow_swap1)

lemma shuffleLoop_props:
  "length (fst (shuffleLoop n arr a)) = length arr \<and> snd (shuffleLoop n arr a) = (advance ^^ n) a"
proof (induction n arbitrary: arr a)
  case 0
  then show ?case by simp
next
  case (Suc n)
  show ?case
    using Suc.IH[of "arr[Suc n := arr ! drawAt (Suc n + 1) a 0, drawAt (Suc n + 1) a 0 := arr ! Suc n]" "advance a"]
    by (simp add: floorRng_pair funpow_swap1)
qed

lemma makeRow_props:
  "length (fst (makeRow pool yy xs a)) = length xs \<and>
   snd (makeRow pool yy xs a) = (advance ^^ length xs) a \<and>
   (\<forall>i<length xs. fst (makeRow pool yy xs a) ! i =
      \<lparr>x = xs ! i, y = yy, archetype = pool ! drawAt (length pool) a i, state = Neutral,
        leaveCount = 0, visits = 0, lastEntry = None, reveal = 0\<rparr>)"
proof (induction xs arbitrary: a)
  case Nil
  then show ?case by simp
next
  case (Cons xx xs)
  obtain row a2 where r: "makeRow pool yy xs (advance a) = (row, a2)"
    by (cases "makeRow pool yy xs (advance a)")
  from Cons.IH[of "advance a"] r
  have l: "length row = length xs" and s: "a2 = (advance ^^ length xs) (advance a)"
    and n: "\<And>i. i < length xs \<Longrightarrow> row ! i =
      \<lparr>x = xs ! i, y = yy, archetype = pool ! drawAt (length pool) a (Suc i), state = Neutral,
        leaveCount = 0, visits = 0, lastEntry = None, reveal = 0\<rparr>"
    by (simp_all add: drawAt_shift)
  have e: "makeRow pool yy (xx # xs) a =
      (\<lparr>x = xx, y = yy, archetype = pool ! drawAt (length pool) a 0, state = Neutral,
        leaveCount = 0, visits = 0, lastEntry = None, reveal = 0\<rparr> # row, a2)"
    by (simp add: floorRng_pair r Let_def)
  show ?case
    unfolding e using l s n by (auto simp: nth_Cons funpow_swap1 split: nat.splits)
qed

section \<open>The grid createGame builds\<close>

lemma drawAt_add: "drawAt k ((advance ^^ m) a) i = drawAt k a (m + i)"
  by (simp add: drawAt_def funpow_funpow add.commute)

lemma makeGrid_props:
  "length (fst (makeGrid pool ys a)) = length ys \<and>
   snd (makeGrid pool ys a) = (advance ^^ (length ys * nat gridSize)) a \<and>
   (\<forall>j<length ys. fst (makeGrid pool ys a) ! j =
      fst (makeRow pool (ys ! j) (map int [0..<nat gridSize]) ((advance ^^ (j * nat gridSize)) a)))"
proof (induction ys arbitrary: a)
  case Nil
  then show ?case by simp
next
  case (Cons yy ys)
  let ?cols = "map int [0..<nat gridSize]"
  obtain row a1 where r: "makeRow pool yy ?cols a = (row, a1)"
    by (cases "makeRow pool yy ?cols a")
  with makeRow_props[of pool yy ?cols a]
  have a1: "a1 = (advance ^^ nat gridSize) a" by simp
  obtain rows a2 where rs: "makeGrid pool ys a1 = (rows, a2)"
    by (cases "makeGrid pool ys a1")
  from Cons.IH[of a1] rs
  have l: "length rows = length ys"
    and s: "a2 = (advance ^^ (length ys * nat gridSize)) a1"
    and n: "\<And>j. j < length ys \<Longrightarrow> rows ! j =
       fst (makeRow pool (ys ! j) ?cols ((advance ^^ (j * nat gridSize)) a1))"
    by simp_all
  have e: "makeGrid pool (yy # ys) a = (row # rows, a2)"
    by (simp add: r rs)
  have s': "a2 = (advance ^^ (Suc (length ys) * nat gridSize)) a"
    unfolding s a1 funpow_funpow by (simp add: add.commute)
  have n': "rows ! j = fst (makeRow pool (ys ! j) ?cols ((advance ^^ (Suc j * nat gridSize)) a))"
    if "j < length ys" for j
    unfolding n[OF that] a1 funpow_funpow by (simp add: add.commute)
  have r0: "row = fst (makeRow pool yy ?cols a)" by (simp add: r)
  have "fst (makeGrid pool (yy # ys) a) ! j =
      fst (makeRow pool ((yy # ys) ! j) ?cols ((advance ^^ (j * nat gridSize)) a))"
    if "j < length (yy # ys)" for j
  proof (cases j)
    case 0
    then show ?thesis by (simp add: e r0 del: makeGrid.simps)
  next
    case (Suc i)
    with that have "i < length ys" by simp
    from n'[OF this] show ?thesis by (simp add: e Suc del: makeGrid.simps)
  qed
  then show ?case
    using l s' by (simp add: e del: makeGrid.simps)
qed

lemma makeGrid_tile:
  assumes "j < nat gridSize" "i < nat gridSize"
  shows "fst (makeGrid pool (map int [0..<nat gridSize]) a) ! j ! i =
      \<lparr>x = int i, y = int j, archetype = pool ! drawAt (length pool) a (j * nat gridSize + i),
        state = Neutral, leaveCount = 0, visits = 0, lastEntry = None, reveal = 0\<rparr>"
proof -
  let ?cols = "map int [0..<nat gridSize]"
  let ?a = "(advance ^^ (j * nat gridSize)) a"
  from assms have j: "j < length ?cols" and i: "i < length ?cols" by simp_all
  from assms have ci: "?cols ! i = int i" "?cols ! j = int j" by simp_all
  from makeGrid_props[of pool ?cols a] j
  have f1: "fst (makeGrid pool ?cols a) ! j = fst (makeRow pool (?cols ! j) ?cols ?a)"
    by blast
  from makeRow_props[of pool "?cols ! j" ?cols ?a] i
  have f2: "fst (makeRow pool (?cols ! j) ?cols ?a) ! i =
      \<lparr>x = ?cols ! i, y = ?cols ! j, archetype = pool ! drawAt (length pool) ?a i,
        state = Neutral, leaveCount = 0, visits = 0, lastEntry = None, reveal = 0\<rparr>"
    by blast
  have da: "drawAt (length pool) ?a i = drawAt (length pool) a (j * nat gridSize + i)"
    by (rule drawAt_add)
  show ?thesis
    by (simp only: f1[unfolded ci] f2[unfolded ci] da)
qed

lemma makeGrid_shape: "gridShape (fst (makeGrid pool (map int [0..<nat gridSize]) a))"
proof -
  let ?cols = "map int [0..<nat gridSize]"
  have "length (fst (makeGrid pool ?cols a) ! j) = nat gridSize" if "j < nat gridSize" for j
  proof -
    from that have j: "j < length ?cols" by simp
    from makeGrid_props[of pool ?cols a] j
    have "fst (makeGrid pool ?cols a) ! j =
      fst (makeRow pool (?cols ! j) ?cols ((advance ^^ (j * nat gridSize)) a))"
      by blast
    then show ?thesis
      using makeRow_props[of pool "?cols ! j" ?cols "(advance ^^ (j * nat gridSize)) a"]
      by simp
  qed
  moreover have "length (fst (makeGrid pool ?cols a)) = nat gridSize"
    using makeGrid_props[of pool ?cols a] by simp
  ultimately show ?thesis
    by (simp add: gridShape_def list_all_length)
qed

lemma shuffle_archetypes:
  "length (fst (shuffle archetypes a0)) = 5" "snd (shuffle archetypes a0) = (advance ^^ 4) a0"
proof -
  have l: "length archetypes = 5" by (simp add: archetypes_def)
  from shuffleLoop_props[of "length archetypes - 1" archetypes a0]
  show "length (fst (shuffle archetypes a0)) = 5" "snd (shuffle archetypes a0) = (advance ^^ 4) a0"
    unfolding shuffle_def l by simp_all
qed

lemma newSession_eq:
  "newSession a0 =
     \<lparr>rng = (advance ^^ 332) a0,
      grid = updTile (\<lambda>t. t\<lparr>state := Exit\<rparr>) 16 16
               (updTile (\<lambda>t. t\<lparr>state := Safe\<rparr>) 1 1
                  (fst (makeGrid (take 4 (fst (shuffle archetypes a0)))
                          (map int [0..<nat gridSize]) ((advance ^^ 8) a0)))),
      player = \<lparr>x = 1, y = 1\<rparr>, exit = \<lparr>x = 16, y = 16\<rparr>, moveCount = 0, crystallized = 0,
      recentDirections = [], recentArchetypes = [], recentPositions = [],
      thresholds = \<lparr>thirdExit = 3 + drawAt 2 a0 4, frequencyWindow = 6 + drawAt 4 a0 5,
                     frequencyCount = 3 + drawAt 2 a0 6, backtrackWindow = 4 + drawAt 3 a0 7\<rparr>,
      archetypePool = take 4 (fst (shuffle archetypes a0)), message = ''Learning...'',
      revealTimer = 0\<rparr>"
proof -
  have m: "snd (makeGrid pool (map int [0..<18]) a) = (advance ^^ 324) a" for pool a
    using makeGrid_props[of pool "map int [0..<nat gridSize]" a] by (simp add: gridSize_def)
  show ?thesis
    unfolding newSession_def
    by (simp add: Let_def split_beta shuffle_archetypes(2) floorRng_funpow m gridSize_def
        funpow_funpow del: funpow.simps)
qed

section \<open>Fresh sessions and sequences of operations\<close>

lemma newSession_fields:
  "player (newSession a0) = \<lparr>x = 1, y = 1\<rparr>" "exit (newSession a0) = \<lparr>x = 16, y = 16\<rparr>"
  "moveCount (newSession a0) = 0" "crystallized (newSession a0) = 0"
  "recentDirections (newSession a0) = []" "recentArchetypes (newSession a0) = []"
  "recentPositions (newSession a0) = []"
  "archetypePool (newSession a0) = take 4 (fst (shuffle archetypes a0))"
  "thresholds (newSession a0) =
     \<lparr>thirdExit = 3 + drawAt 2 a0 4, frequencyWindow = 6 + drawAt 4 a0 5,
      frequencyCount = 3 + drawAt 2 a0 6, backtrackWindow = 4 + drawAt 3 a0 7\<rparr>"
  "message (newSession a0) = ''Learning...''" "revealTimer (newSession a0) = 0"
  by (simp_all add: newSession_eq)

lemma newSession_shape: "gridShape (grid (newSession a0))"
  by (simp add: newSession_eq gridShape_updTile makeGrid_shape)

lemma newSession_tile:
  assumes "\<not> offGrid xx yy"
  shows "tileAt (grid (newSession a0)) yy xx =
     \<lparr>x = xx, y = yy,
      archetype = archetypePool (newSession a0) ! drawAt 4 a0 (8 + nat yy * 18 + nat xx),
      state = (if yy = 16 \<and> xx = 16 then Exit else if yy = 1 \<and> xx = 1 then Safe else Neutral),
      leaveCount = 0, visits = 0, lastEntry = None, reveal = 0\<rparr>"
proof -
  let ?pool = "take 4 (fst (shuffle archetypes a0))"
  let ?g0 = "fst (makeGrid ?pool (map int [0..<nat gridSize]) ((advance ^^ 8) a0))"
  let ?g1 = "updTile (\<lambda>t. t\<lparr>state := Safe\<rparr>) 1 1 ?g0"
  let ?g2 = "updTile (\<lambda>t. t\<lparr>state := Exit\<rparr>) 16 16 ?g1"
  have lp: "length ?pool = 4" by (simp add: shuffle_archetypes)
  have s0: "gridShape ?g0" by (rule makeGrid_shape)
  have s1: "gridShape ?g1" using s0 by (simp add: gridShape_updTile)
  have o1: "\<not> offGrid 1 1" "\<not> offGrid 16 16" by (simp_all add: inside_iff)
  have t0: "tileAt ?g0 v u =
     \<lparr>x = u, y = v, archetype = ?pool ! drawAt 4 a0 (8 + nat v * 18 + nat u),
      state = Neutral, leaveCount = 0, visits = 0, lastEntry = None, reveal = 0\<rparr>"
    if "\<not> offGrid u v" for u v
  proof -
    from that have b: "0 \<le> u" "u < 18" "0 \<le> v" "v < 18" by (simp_all add: inside_iff)
    then have j: "nat v < nat gridSize" "nat u < nat gridSize" by (simp_all add: gridSize_def)
    have da: "drawAt 4 ((advance ^^ 8) a0) (nat v * nat gridSize + nat u)
                = drawAt 4 a0 (8 + (nat v * nat gridSize + nat u))"
      by (rule drawAt_add)
    show ?thesis
      unfolding tileAt_def makeGrid_tile[OF j] lp using b da by (simp add: gridSize_def add.assoc)
  qed
  have t1: "tileAt ?g1 v u = (if v = 1 \<and> u = 1 then (tileAt ?g0 1 1)\<lparr>state := Safe\<rparr> else tileAt ?g0 v u)"
    if "\<not> offGrid u v" for u v
    by (rule tileAt_updTile[OF s0 o1(1) that])
  have t2: "tileAt ?g2 yy xx = (if yy = 16 \<and> xx = 16 then (tileAt ?g1 16 16)\<lparr>state := Exit\<rparr> else tileAt ?g1 yy xx)"
    by (rule tileAt_updTile[OF s1 o1(2) assms])
  have g: "grid (newSession a0) = ?g2" "archetypePool (newSession a0) = ?pool"
    by (simp_all add: newSession_eq)
  show ?thesis
    unfolding g t2 t1[OF assms] t1[OF o1(2)] t0[OF assms] t0[OF o1(1)] t0[OF o1(2)]
    by simp
qed

lemma newSession_wf: "wf_game (newSession a0)"
proof -
  have "coordsOk (grid (newSession a0))"
    unfolding coordsOk_iff by (simp add: newSession_tile)
  moreover have "\<not> offGrid 16 16" "\<not> offGrid 1 1" by (simp_all add: inside_iff)
  ultimately show ?thesis
    by (simp add: wf_game_def newSession_shape newSession_fields inGrid_def newSession_tile)
qed

lemma wallCount_zero:
  assumes "gridShape g" "\<And>yy xx. \<not> offGrid xx yy \<Longrightarrow> state (tileAt g yy xx) \<noteq> Wall"
  shows "wallCount g = 0"
proof -
  have "state t \<noteq> Wall" if "t \<in> set (concat g)" for t
  proof -
    from that obtain row where r: "row \<in> set g" and t: "t \<in> set row" by auto
    from r obtain j where j: "j < length g" "row = g ! j" by (auto simp: in_set_conv_nth)
    from t obtain i where i: "i < length row" "t = row ! i" by (auto simp: in_set_conv_nth)
    from assms(1) j i have "j < 18" "i < 18"
      by (auto simp: gridShape_def list_all_length gridSize_def)
    then have "\<not> offGrid (int i) (int j)" by (simp add: inside_iff)
    from assms(2)[OF this] show ?thesis by (simp add: tileAt_def i j)
  qed
  then show ?thesis
    by (simp add: wallCount_def filter_empty_conv)
qed

lemma newSession_wallCount: "wallCount (grid (newSession a0)) = 0"
  by (rule wallCount_zero[OF newSession_shape]) (simp add: newSession_tile)

lemma exec_inv:
  assumes "wf_game g" "crystallized g = wallCount (grid g)" "exit g = \<lparr>x = 16, y = 16\<rparr>"
    and "exec op (Some g) = Some g'"
  shows "wf_game g' \<and> crystallized g' = wallCount (grid g') \<and> exit g' = \<lparr>x = 16, y = 16\<rparr>"
proof (cases op)
  case (CreateGame seed random)
  with assms(4) show ?thesis
    by (auto simp: createGame_def newSession_wf newSession_wallCount newSession_fields)
next
  case (AttemptMove dx dy)
  with assms(4) have "attemptMove dx dy (Some g) = Some g'" by simp
  from attemptMove_inv[OF assms(1) this] assms(2,3) show ?thesis by simp
next
  case Reveal
  with assms show ?thesis by (auto simp: reveal_fn_def wf_game_def)
next
  case Draw
  with assms(4) have g': "g' = draw g" by auto
  from assms(1) have sh: "gridShape (grid g)" by (simp add: wf_game_def)
  have "wf_game (draw g)"
  proof (rule wf_from_gridKeeps[OF assms(1) draw_grid[OF sh]])
    show "exit (draw g) = exit g"
      by (simp add: draw_fields(2))
    show "inGrid (player (draw g))"
      using assms(1) by (simp add: draw_fields(1) wf_game_def)
  qed
  then show ?thesis
    using assms(2,3) by (simp add: g' draw_count draw_fields(2,4))
qed

lemma exec_Some: "\<exists>g'. exec op (Some g) = Some g'"
proof (cases op)
  case (AttemptMove dx dy)
  show ?thesis
    unfolding AttemptMove by (cases rule: attemptMove_cases[of g dx dy]) simp_all
qed (simp_all add: reveal_fn_def)

lemma execAll_inv:
  assumes "wf_game g" "crystallized g = wallCount (grid g)" "exit g = \<lparr>x = 16, y = 16\<rparr>"
  shows "\<exists>g'. execAll ops (Some g) = Some g' \<and> wf_game g' \<and>
              crystallized g' = wallCount (grid g') \<and> exit g' = \<lparr>x = 16, y = 16\<rparr>"
  using assms
proof (induction ops arbitrary: g)
  case Nil
  then show ?case by (simp add: execAll_def)
next
  case (Cons op ops)
  from exec_Some obtain g1 where g1: "exec op (Some g) = Some g1" by blast
  from exec_inv[OF Cons.prems g1] have "wf_game g1" "crystallized g1 = wallCount (grid g1)"
    "exit g1 = \<lparr>x = 16, y = 16\<rparr>"
    by simp_all
  from Cons.IH[OF this] show ?case
    by (simp add: execAll_def g1)
qed

section \<open>The state of every tile after a move\<close>

lemma vacate_state:
  assumes sh: "gridShape (grid g)" and ip: "inGrid (player g)" and og: "\<not> offGrid xx yy"
  shows "state (tileAt (grid (vacate g)) yy xx) =
           (if yy = y (player g) \<and> xx = x (player g) \<and> crystallizes g then Wall
            else state (tileAt (grid g) yy xx))"
proof -
  let ?cy = "y (player g)" and ?cx = "x (player g)"
  from ip have op: "\<not> offGrid ?cx ?cy" by (simp add: inGrid_def)
  have rf: "ruleFires ?cy ?cx
              (g\<lparr>grid := updTile (\<lambda>t. t\<lparr>leaveCount := leaveCount t + 1\<rparr>) ?cy ?cx (grid g)\<rparr>)
            = crystallizes g"
    using sh op
    by (simp add: ruleFires_def crystallizes_def Let_def tileAt_updTile trigger_grid_irrelevant)
  show ?thesis
    using sh op og
    by (simp add: vacate_def Let_def applyTileRule_eq rf[simplified] tileAt_updTile gridShape_updTile)
qed

lemma enter_state:
  assumes "gridShape (grid g)" "\<not> offGrid nx ny" "\<not> offGrid xx yy"
  shows "state (tileAt (grid (enter d nx ny g)) yy xx) = state (tileAt (grid g) yy xx)"
  unfolding enter_fields using assms by (simp add: tileAt_updTile)

lemma enter_archetypes:
  assumes "gridShape (grid g)" "\<not> offGrid nx ny"
  shows "recentArchetypes (enter d nx ny g) =
           pushCapped 20 (archetype (tileAt (grid g) ny nx)) (recentArchetypes g)"
  using assms by (simp add: enter_def Let_def tileAt_updTile)

lemma settle_state:
  assumes "gridShape (grid g)" "\<not> offGrid nx ny" "\<not> offGrid xx yy"
  shows "state (tileAt (grid (settle nx ny g)) yy xx) =
           (if yy = ny \<and> xx = nx \<and> state (tileAt (grid g) ny nx) = Neutral then Safe
            else state (tileAt (grid g) yy xx))"
  using assms
  by (simp add: settle_def Let_def draw_fields checkFailure_eq flashMessage_def
      tileAt_map gridShape_updTile decayReveal_def tileAt_updTile)

lemma settle_message:
  "message (settle nx ny g) =
     (if state (tileAt (grid g) ny nx) = Exit then ''Exit reached. The maze remembers your path.''
      else checkMessage (if state (tileAt (grid g) ny nx) = Neutral
                         then g\<lparr>grid := updTile (\<lambda>t. t\<lparr>state := Safe\<rparr>) ny nx (grid g)\<rparr>
                         else g))"
  by (simp add: settle_def Let_def draw_fields checkFailure_eq flashMessage_def)

text \<open>The state of every tile after an accepted move.\<close>

lemma accepted_state:
  assumes wf: "wf_game g" and acc: "accepted dx dy (Some g)"
    and eq: "attemptMove dx dy (Some g) = Some g'" and og: "\<not> offGrid xx yy"
  shows "state (tileAt (grid g') yy xx) =
           (if yy = y (player g) + dy \<and> xx = x (player g) + dx \<and>
               state (tileAt (grid (vacate g)) yy xx) = Neutral
            then Safe
            else if yy = y (player g) \<and> xx = x (player g) \<and> crystallizes g then Wall
            else state (tileAt (grid g) yy xx))"
proof -
  define nx ny where "nx = x (player g) + dx" and "ny = y (player g) + dy"
  define g1 where "g1 = vacate g"
  define g2 where "g2 = enter (find (\<lambda>dir. x dir = dx \<and> y dir = dy) directions) nx ny g1"
  from wf have sh: "gridShape (grid g)" and ip: "inGrid (player g)"
    by (simp_all add: wf_game_def)
  note st = accepted_steps[OF wf acc]
  from st(1) eq have g': "g' = settle nx ny g2" by (simp add: g2_def g1_def nx_def ny_def)
  from st(2) have on: "\<not> offGrid nx ny" by (simp add: nx_def ny_def)
  from st(3) have s1: "gridShape (grid g1)" by (simp add: gridKeeps_def g1_def)
  from st(4) have s2: "gridShape (grid g2)" by (simp add: gridKeeps_def g2_def g1_def nx_def ny_def)
  have e3: "state (tileAt (grid g') yy xx) =
           (if yy = ny \<and> xx = nx \<and> state (tileAt (grid g2) ny nx) = Neutral then Safe
            else state (tileAt (grid g2) yy xx))"
    unfolding g' by (rule settle_state[OF s2 on og])
  have e2: "state (tileAt (grid g2) v u) = state (tileAt (grid g1) v u)" if "\<not> offGrid u v" for u v
    unfolding g2_def by (rule enter_state[OF s1 on that])
  have e1: "state (tileAt (grid g1) v u) =
           (if v = y (player g) \<and> u = x (player g) \<and> crystallizes g then Wall
            else state (tileAt (grid g) v u))" if "\<not> offGrid u v" for u v
    unfolding g1_def by (rule vacate_state[OF sh ip that])
  have "state (tileAt (grid g') yy xx) =
           (if yy = ny \<and> xx = nx \<and> state (tileAt (grid g1) yy xx) = Neutral
            then Safe
            else if yy = y (player g) \<and> xx = x (player g) \<and> crystallizes g then Wall
            else state (tileAt (grid g) yy xx))"
    unfolding e3 e2[OF og] e2[OF on] e1[OF og] e1[OF on] by auto
  then show ?thesis
    by (simp add: g1_def nx_def ny_def)
qed

lemma accepted_fields:
  assumes wf: "wf_game g" and acc: "accepted dx dy (Some g)"
    and eq: "attemptMove dx dy (Some g) = Some g'"
  shows "player g' = \<lparr>x = x (player g) + dx, y = y (player g) + dy\<rparr>"
    and "moveCount g' = moveCount g + 1"
    and "recentDirections g' = pushCapped 12 (dirName (dx, dy)) (recentDirections g)"
    and "recentPositions g' =
           pushCapped 14 \<lparr>x = x (player g) + dx, y = y (player g) + dy\<rparr> (recentPositions g)"
    and "recentArchetypes g' =
           pushCapped 20 (archetype (tileAt (grid g) (y (player g) + dy) (x (player g) + dx)))
             (recentArchetypes g)"
    and "thresholds g' = thresholds g"
proof -
  let ?nx = "x (player g) + dx" and ?ny = "y (player g) + dy"
  let ?d = "find (\<lambda>dir. x dir = dx \<and> y dir = dy) directions"
  note st = accepted_steps[OF wf acc]
  from st(1) eq have g': "g' = settle ?nx ?ny (enter ?d ?nx ?ny (vacate g))" by simp
  from st(3) have s1: "gridShape (grid (vacate g))"
    and k: "tileKeeps (tileAt (grid g) ?ny ?nx) (tileAt (grid (vacate g)) ?ny ?nx)"
    using st(2) by (simp_all add: gridKeeps_def)
  show "player g' = \<lparr>x = ?nx, y = ?ny\<rparr>" "moveCount g' = moveCount g + 1"
    "recentDirections g' = pushCapped 12 (dirName (dx, dy)) (recentDirections g)"
    "recentPositions g' = pushCapped 14 \<lparr>x = ?nx, y = ?ny\<rparr> (recentPositions g)"
    "thresholds g' = thresholds g"
    unfolding g' by (simp_all add: settle_fields enter_fields vacate_fields dirName_def)
  show "recentArchetypes g' = pushCapped 20 (archetype (tileAt (grid g) ?ny ?nx)) (recentArchetypes g)"
    unfolding g' using k
    by (simp add: settle_fields enter_archetypes[OF s1 st(2)] vacate_fields tileKeeps_def)
qed

section \<open>A trapped player has no route\<close>

lemma trapped_no_path:
  assumes "isTrapped p G" "x p \<noteq> x goal \<or> y p \<noteq> y goal"
  shows "\<not> pathExists p goal G"
proof -
  have "visitNeighbour G p d vq = vq" if "d \<in> set directions" for d vq
    using assms(1) that by (auto simp: isTrapped_def visitNeighbour_def Let_def list_all_iff)
  then have "fold (visitNeighbour G p) ds vq = vq" if "set ds \<subseteq> set directions" for ds vq
    using that by (induction ds arbitrary: vq) auto
  then have "visitNeighbours G p vq = vq" for vq
    by (simp add: visitNeighbours_def)
  then show ?thesis
    using assms(2) by (auto simp: pathExists_def)
qed

lemma isTrapped_states:
  assumes "\<And>yy xx. \<not> offGrid xx yy \<Longrightarrow> state (tileAt G' yy xx) = state (tileAt G yy xx)"
  shows "isTrapped p G' = isTrapped p G"
  unfolding isTrapped_def Let_def
  by (rule list.pred_cong[OF refl]) (auto simp: assms)

section \<open>Sequences of moves\<close>

lemma moves_inv:
  assumes "wf_game g"
  shows "\<exists>g'. moves ms (Some g) = Some g' \<and> wf_game g' \<and> gridKeeps (grid g) (grid g') \<and>
              exit g' = exit g"
  using assms
proof (induction ms arbitrary: g)
  case Nil
  then show ?case by (simp add: moves_def gridKeeps_refl wf_game_def)
next
  case (Cons m ms)
  obtain g1 where g1: "attemptMove (fst m) (snd m) (Some g) = Some g1"
    by (cases rule: attemptMove_cases[of g "fst m" "snd m"]) simp_all
  note i1 = attemptMove_inv[OF Cons.prems g1]
  from Cons.IH[OF i1(1)] obtain g' where g': "moves ms (Some g1) = Some g'" "wf_game g'"
    "gridKeeps (grid g1) (grid g')" "exit g' = exit g1" by blast
  from i1(2) g'(3) have "gridKeeps (grid g) (grid g')" by (rule gridKeeps_trans)
  with g' i1(3) show ?case
    by (simp add: moves_def g1)
qed

lemma vacated_tile_wall:
  assumes wf: "wf_game g" and acc: "accepted dx dy (Some g)"
    and eq: "attemptMove dx dy (Some g) = Some g'" and cr: "crystallizes g"
  shows "state (tileAt (grid g') (y (player g)) (x (player g))) = Wall"
proof -
  from wf have sh: "gridShape (grid g)" and ip: "inGrid (player g)"
    by (simp_all add: wf_game_def)
  from ip have og: "\<not> offGrid (x (player g)) (y (player g))" by (simp add: inGrid_def)
  have "state (tileAt (grid (vacate g)) (y (player g)) (x (player g))) = Wall"
    using cr by (simp add: vacate_state[OF sh ip og])
  then show ?thesis
    using cr by (simp add: accepted_state[OF wf acc eq og])
qed

lemma sequence_vacuous: "length (recentDirections st) < 2 \<Longrightarrow> trigger Sequence t st"
proof -
  assume "length (recentDirections st) < 2"
  then consider "recentDirections st = []" | d where "recentDirections st = [d]"
    by (cases "recentDirections st"; cases "tl (recentDirections st)") auto
  then show ?thesis
    by cases (simp_all add: sliceLast_def)
qed

lemma attemptMove_Some: "\<exists>g'. attemptMove dx dy (Some g) = Some g'"
  by (cases rule: attemptMove_cases[of g dx dy]) simp_all

section \<open>The last recorded position\<close>

text \<open>
  \<open>attemptMove\<close> pushes the destination to \<open>recentPositions\<close> when it moves the player
  there, so in every session reached from \<open>createGame\<close> the list is empty or ends with
  the position of the player. \<open>slice(-n)\<close> keeps the last entry for every \<open>n\<close>
  (\<open>slice(-0)\<close> is the whole array).
\<close>

lemma last_pushCapped: "0 < cap \<Longrightarrow> pushCapped cap v xs \<noteq> [] \<and> last (pushCapped cap v xs) = v"
  by (cases xs) (simp_all add: pushCapped_def Let_def)

lemma in_sliceLast_last: "xs \<noteq> [] \<Longrightarrow> last xs \<in> set (sliceLast n xs)"
proof (cases "n = 0")
  case True
  assume "xs \<noteq> []"
  with True show ?thesis by (simp add: sliceLast_def)
next
  case False
  assume ne: "xs \<noteq> []"
  with False have lt: "length xs - n < length xs" by (cases xs) simp_all
  then have "drop (length xs - n) xs \<noteq> []" by simp
  then have "last (drop (length xs - n) xs) \<in> set (drop (length xs - n) xs)" by (rule last_in_set)
  with lt False show ?thesis by (simp add: sliceLast_def last_drop)
qed

lemma exec_history:
  assumes "wf_game g"
    and "recentPositions g = [] \<or> last (recentPositions g) = player g"
    and "exec op (Some g) = Some g'"
  shows "recentPositions g' = [] \<or> last (recentPositions g') = player g'"
proof (cases op)
  case (CreateGame seed random)
  with assms(3) show ?thesis by (auto simp: createGame_def newSession_fields)
next
  case (AttemptMove dx dy)
  with assms(3) have eq: "attemptMove dx dy (Some g) = Some g'" by simp
  show ?thesis
  proof (cases rule: attemptMove_cases[of g dx dy])
    case offGrid
    with eq assms(2) show ?thesis by simp
  next
    case blocked
    with eq assms(2) show ?thesis by auto
  next
    case accepted
    from accepted_fields(1,4)[OF assms(1) accepted(1) eq] show ?thesis
      by (simp add: last_pushCapped)
  qed
next
  case Reveal
  with assms(2,3) show ?thesis by (auto simp: reveal_fn_def)
next
  case Draw
  with assms(2,3) show ?thesis by (auto simp: draw_fields)
qed

lemma set_pushCapped: "set (pushCapped cap v xs) \<subseteq> insert v (set xs)"
proof (cases "xs @ [v]")
  case Nil
  then show ?thesis by simp
next
  case (Cons a as)
  have "set (tl (xs @ [v])) \<subseteq> set (xs @ [v])" by (rule list.set_sel(2)[THEN subsetI]) simp
  then show ?thesis by (auto simp: pushCapped_def Let_def)
qed

text \<open>
  The trigger of a \<open>backtrack\<close> tile under the player is true as soon as the last
  recorded position is the player's.
\<close>

lemma backtrack_crystallizes:
  assumes wf: "wf_game g" and ne: "recentPositions g \<noteq> []"
    and l: "last (recentPositions g) = player g"
    and "archetype (tileAt (grid g) (y (player g)) (x (player g))) = Backtrack"
    and "state (tileAt (grid g) (y (player g)) (x (player g))) \<noteq> Wall"
    and "state (tileAt (grid g) (y (player g)) (x (player g))) \<noteq> Exit"
  shows "crystallizes g"
proof -
  from in_sliceLast_last[OF ne, of "backtrackWindow (thresholds g)"] l
  have m: "player g \<in> set (sliceLast (backtrackWindow (thresholds g)) (recentPositions g))"
    by simp
  from wf have "coordsOk (grid g)" "\<not> offGrid (x (player g)) (y (player g))"
    by (simp_all add: wf_game_def inGrid_def)
  then have c: "x (tileAt (grid g) (y (player g)) (x (player g))) = x (player g)"
    "y (tileAt (grid g) (y (player g)) (x (player g))) = y (player g)"
    by (simp_all add: coordsOk_iff)
  from m have "list_ex (\<lambda>p. x p = x (player g) \<and> y p = y (player g))
                 (sliceLast (backtrackWindow (thresholds g)) (recentPositions g))"
    unfolding list_ex_iff by blast
  with c assms(4-6) show ?thesis
    by (simp add: crystallizes_def Let_def)
qed

lemma keeps_wall_or_exit:
  assumes k: "gridKeeps (grid g) (grid g')" and p: "inGrid p"
    and s: "state (tileAt (grid g) (y p) (x p)) = Wall \<or> state (tileAt (grid g) (y p) (x p)) = Exit"
  shows "state (tileAt (grid g') (y p) (x p)) = Wall \<or> state (tileAt (grid g') (y p) (x p)) = Exit"
proof -
  from k p have "tileKeeps (tileAt (grid g) (y p) (x p)) (tileAt (grid g') (y p) (x p))"
    by (simp add: gridKeeps_def inGrid_def)
  with s show ?thesis by (auto simp: tileKeeps_def)
qed

lemma keeps_archetype:
  assumes k: "gridKeeps (grid g) (grid g')" and p: "inGrid p"
  shows "archetype (tileAt (grid g') (y p) (x p)) = archetype (tileAt (grid g) (y p) (x p))"
proof -
  from k p have "tileKeeps (tileAt (grid g) (y p) (x p)) (tileAt (grid g') (y p) (x p))"
    by (simp add: gridKeeps_def inGrid_def)
  then show ?thesis by (simp add: tileKeeps_def)
qed

lemma attemptMove_hardenedBehind:
  assumes wf: "wf_game g"
    and h: "recentPositions g = [] \<or> last (recentPositions g) = player g"
    and lb: "hardenedBehind g"
    and eq: "attemptMove dx dy (Some g) = Some g'"
  shows "hardenedBehind g'"
proof (cases rule: attemptMove_cases[of g dx dy])
  case offGrid
  with eq lb show ?thesis by simp
next
  case blocked
  with eq have "g' = g\<lparr>message := ''Crystallized path blocks the way.''\<rparr>" by simp
  with lb show ?thesis by (simp add: hardenedBehind_def)
next
  case accepted
  note f = accepted_fields(1,4)[OF wf accepted(1) eq]
  note i = attemptMove_inv(1,2)[OF wf eq]
  from i(1) have pg': "inGrid (player g')" by (simp add: wf_game_def)
  show ?thesis
    unfolding hardenedBehind_def
  proof (intro ballI conjI impI)
    fix p assume p: "p \<in> set (recentPositions g')"
    with set_pushCapped[of 14 "player g'" "recentPositions g"] f
    have d: "p = player g' \<or> p \<in> set (recentPositions g)" by auto
    with pg' lb show "inGrid p" by (auto simp: hardenedBehind_def)
  next
    fix p assume p: "p \<in> set (recentPositions g')" and ne: "p \<noteq> player g'"
      and ar: "archetype (tileAt (grid g') (y p) (x p)) = Backtrack"
    from p ne set_pushCapped[of 14 "player g'" "recentPositions g"] f
    have m: "p \<in> set (recentPositions g)" by auto
    with lb have ip: "inGrid p" by (simp add: hardenedBehind_def)
    from ar keeps_archetype[OF i(2) ip]
    have ar0: "archetype (tileAt (grid g) (y p) (x p)) = Backtrack" by simp
    show "state (tileAt (grid g') (y p) (x p)) = Wall \<or> state (tileAt (grid g') (y p) (x p)) = Exit"
    proof (cases "state (tileAt (grid g) (y p) (x p)) = Wall \<or> state (tileAt (grid g) (y p) (x p)) = Exit")
      case True
      then show ?thesis by (rule keeps_wall_or_exit[OF i(2) ip])
    next
      case False
      with lb m ar0 have pp: "p = player g" by (auto simp: hardenedBehind_def)
      from m have ne0: "recentPositions g \<noteq> []" by auto
      with h have l: "last (recentPositions g) = player g" by simp
      from False ar0 have "crystallizes g"
        unfolding pp by (intro backtrack_crystallizes[OF wf ne0 l]) simp_all
      from vacated_tile_wall[OF wf accepted(1) eq this] show ?thesis by (simp add: pp)
    qed
  qed
qed

lemma exec_hardenedBehind:
  assumes wf: "wf_game g"
    and h: "recentPositions g = [] \<or> last (recentPositions g) = player g"
    and lb: "hardenedBehind g"
    and eq: "exec op (Some g) = Some g'"
  shows "hardenedBehind g'"
proof (cases op)
  case (CreateGame seed random)
  with eq show ?thesis by (auto simp: hardenedBehind_def createGame_def newSession_fields)
next
  case (AttemptMove dx dy)
  with eq have "attemptMove dx dy (Some g) = Some g'" by simp
  from attemptMove_hardenedBehind[OF wf h lb this] show ?thesis .
next
  case Reveal
  with eq lb show ?thesis by (auto simp: reveal_fn_def hardenedBehind_def)
next
  case Draw
  with eq have g': "g' = draw g" by auto
  from wf have sh: "gridShape (grid g)" by (simp add: wf_game_def)
  have "tileAt (grid (draw g)) (y p) (x p) = decayReveal (tileAt (grid g) (y p) (x p))" if "inGrid p" for p
    using that unfolding draw_fields by (simp add: tileAt_map[OF sh] inGrid_def)
  with lb show ?thesis
    unfolding g' hardenedBehind_def by (simp add: draw_fields(1,7) decayReveal_def)
qed

lemma execAll_history_from:
  assumes "wf_game g" "crystallized g = wallCount (grid g)" "exit g = \<lparr>x = 16, y = 16\<rparr>"
    and "recentPositions g = [] \<or> last (recentPositions g) = player g"
    and "hardenedBehind g"
    and "execAll ops (Some g) = Some g'"
  shows "wf_game g' \<and> (recentPositions g' = [] \<or> last (recentPositions g') = player g') \<and>
         hardenedBehind g'"
  using assms
proof (induction ops arbitrary: g)
  case Nil
  then show ?case by (simp add: execAll_def)
next
  case (Cons op ops)
  from exec_Some obtain g1 where g1: "exec op (Some g) = Some g1" by blast
  from exec_inv[OF Cons.prems(1-3) g1] have i: "wf_game g1" "crystallized g1 = wallCount (grid g1)"
    "exit g1 = \<lparr>x = 16, y = 16\<rparr>"
    by simp_all
  have h: "recentPositions g1 = [] \<or> last (recentPositions g1) = player g1"
    by (rule exec_history[OF Cons.prems(1,4) g1])
  have b: "hardenedBehind g1"
    by (rule exec_hardenedBehind[OF Cons.prems(1,4,5) g1])
  from Cons.prems(6) have "execAll ops (Some g1) = Some g'" by (simp add: execAll_def g1)
  from Cons.IH[OF i h b this] show ?case .
qed

lemma execAll_history:
  assumes "execAll ops (Some (createGame seed random)) = Some g"
  shows "wf_game g" and "recentPositions g = [] \<or> last (recentPositions g) = player g"
    and "hardenedBehind g"
proof -
  have "wf_game g \<and> (recentPositions g = [] \<or> last (recentPositions g) = player g) \<and>
        hardenedBehind g"
  proof (rule execAll_history_from[OF _ _ _ _ _ assms])
    show "wf_game (createGame seed random)"
      by (simp add: createGame_def newSession_wf)
    show "crystallized (createGame seed random) = wallCount (grid (createGame seed random))"
      by (simp add: createGame_def newSession_wallCount newSession_fields)
    show "exit (createGame seed random) = \<lparr>x = 16, y = 16\<rparr>"
      by (simp add: createGame_def newSession_fields)
    show "recentPositions (createGame seed random) = [] \<or>
          last (recentPositions (createGame seed random)) = player (createGame seed random)"
      by (simp add: createGame_def newSession_fields)
    show "hardenedBehind (createGame seed random)"
      by (simp add: hardenedBehind_def createGame_def newSession_fields)
  qed
  then show "wf_game g" and "recentPositions g = [] \<or> last (recentPositions g) = player g"
    and "hardenedBehind g"
    by simp_all
qed

text \<open>
  The player cannot come back to a \<open>backtrack\<close> tile that is still among the recorded
  positions: unless it is the exit tile it is a wall, and the move onto it is rejected.
\<close>

lemma no_return_to_backtrack_tile:
  assumes "execAll ops (Some (createGame seed random)) = Some g"
    and "p \<in> set (recentPositions g)" and "p \<noteq> player g"
    and "archetype (tileAt (grid g) (y p) (x p)) = Backtrack"
    and "state (tileAt (grid g) (y p) (x p)) \<noteq> Exit"
  shows "\<not> accepted (x p - x (player g)) (y p - y (player g)) (Some g)"
proof -
  from execAll_history(3)[OF assms(1)] assms(2-5)
  have "state (tileAt (grid g) (y p) (x p)) = Wall"
    by (auto simp: hardenedBehind_def)
  then show ?thesis by (simp add: accepted_def)
qed

section \<open>Sessions from three seeds\<close>

text \<open>
  The archetype pool, the thresholds and the archetypes of the tiles that the sessions
  below walk over, for the seeds 4, 25 and 42, computed from the generator.
\<close>

lemma seed4:
  "archetypePool (newSession (Finite 4)) = [Frequency, Sequence, ThirdExit, NorthEntry]"
  "drawAt 4 (Finite 4) 27 = 1" "drawAt 4 (Finite 4) 28 = 1"
  unfolding newSession_fields by code_simp+

lemma seed25:
  "archetypePool (newSession (Finite 25)) = [ThirdExit, Backtrack, NorthEntry, Frequency]"
  "thresholds (newSession (Finite 25)) =
     \<lparr>thirdExit = 3, frequencyWindow = 6, frequencyCount = 3, backtrackWindow = 5\<rparr>"
  "drawAt 4 (Finite 25) 8 = 1" "drawAt 4 (Finite 25) 9 = 1" "drawAt 4 (Finite 25) 26 = 1" "drawAt 4 (Finite 25) 27 = 2"
  "drawAt 4 (Finite 25) 312 = 1"
  unfolding newSession_fields by code_simp+

lemma seed42:
  "archetypePool (newSession (Finite 42)) = [ThirdExit, Backtrack, Sequence, NorthEntry]"
  "thresholds (newSession (Finite 42)) =
     \<lparr>thirdExit = 3, frequencyWindow = 8, frequencyCount = 3, backtrackWindow = 5\<rparr>"
  "drawAt 4 (Finite 42) 27 = 3" "drawAt 4 (Finite 42) 28 = 2" "drawAt 4 (Finite 42) 46 = 2" "drawAt 4 (Finite 42) 64 = 2"
  "drawAt 4 (Finite 42) 82 = 1"
  unfolding newSession_fields by code_simp+

lemma seed42_draws:
  "take 4 (fst (shuffle archetypes (Finite 42))) = [ThirdExit, Backtrack, Sequence, NorthEntry]"
  "drawAt 2 (Finite 42) 4 = 0" "drawAt 4 (Finite 42) 5 = 2" "drawAt 2 (Finite 42) 6 = 0"
  "drawAt 3 (Finite 42) 7 = 1"
  by code_simp+

lemmas ev = play_def moves_def attemptMove_def accepted_def Let_def offGrid_def gridSize_def
  tileAt_updTile tileAt_map gridShape_updTile gridShape_map createGame_def
  newSession_shape newSession_tile newSession_fields(1-7,10,11)
  vacate_def applyTileRule_eq ruleFires_def enter_def settle_def checkFailure_eq draw_def
  decayReveal_def flashMessage_def directions_def sliceLast_def pushCapped_def

lemma run42:
  "player (play [(1,0),(0,1)] (createGame (Some (Finite 42)) (Finite 0))) = \<lparr>x = 2, y = 2\<rparr>"
  "accepted 0 1 (Some (play [(1,0)] (createGame (Some (Finite 42)) (Finite 0))))"
  "accepted 0 1 (Some (play [(1,0),(0,1)] (createGame (Some (Finite 42)) (Finite 0))))"
  "archetype (tileAt (grid (play [(1,0),(0,1)] (createGame (Some (Finite 42)) (Finite 0)))) 2 2) = Sequence"
  "state (tileAt (grid (play [(1,0),(0,1)] (createGame (Some (Finite 42)) (Finite 0)))) 2 2) = Safe"
  "state (tileAt (grid (play [(1,0),(0,1),(0,1)] (createGame (Some (Finite 42)) (Finite 0)))) 2 2) = Safe"
  by (simp_all add: ev seed42)

lemma run42b:
  "player (play [(1,0),(0,1),(0,1)] (createGame (Some (Finite 42)) (Finite 0))) = \<lparr>x = 2, y = 3\<rparr>"
  "accepted 0 1 (Some (play [(1,0),(0,1),(0,1)] (createGame (Some (Finite 42)) (Finite 0))))"
  "archetype (tileAt (grid (play [(1,0),(0,1),(0,1)] (createGame (Some (Finite 42)) (Finite 0)))) 3 2) = Sequence"
  "state (tileAt (grid (play [(1,0),(0,1),(0,1)] (createGame (Some (Finite 42)) (Finite 0)))) 3 2) = Safe"
  "recentDirections (play [(1,0),(0,1),(0,1)] (createGame (Some (Finite 42)) (Finite 0))) = [Some East, Some South, Some South]"
  by (simp_all add: ev seed42)

lemma moves_play: "moves ms (Some g) = Some (play ms g)"
proof -
  have "\<exists>g'. moves ms (Some g) = Some g'"
  proof (induction ms arbitrary: g)
    case Nil
    then show ?case by (simp add: moves_def)
  next
    case (Cons m ms)
    from attemptMove_Some obtain g1 where "attemptMove (fst m) (snd m) (Some g) = Some g1" by blast
    with Cons.IH[of g1] show ?case by (simp add: moves_def)
  qed
  then show ?thesis by (auto simp: play_def)
qed

lemma play_snoc: "attemptMove dx dy (Some (play ms g)) = Some (play (ms @ [(dx, dy)]) g)"
proof -
  have "moves (ms @ [(dx, dy)]) (Some g) = attemptMove dx dy (moves ms (Some g))"
    by (simp add: moves_def)
  then show ?thesis by (simp add: moves_play)
qed

lemma createGame_wf: "wf_game (createGame seed random)"
  by (simp add: createGame_def newSession_wf)

lemma play_inv:
  assumes "wf_game g"
  shows "wf_game (play ms g)" and "gridKeeps (grid g) (grid (play ms g))"
    and "exit (play ms g) = exit g"
  using moves_inv[OF assms, of ms] by (simp_all add: moves_play)

lemma run25:
  "accepted (-1) 0 (Some (play [(-1,0),(1,0),(0,-1)] (createGame (Some (Finite 25)) (Finite 0))))"
  "player (play [(-1,0),(1,0),(0,-1),(-1,0)] (createGame (Some (Finite 25)) (Finite 0))) = \<lparr>x = 0, y = 0\<rparr>"
  "state (tileAt (grid (play [(-1,0),(1,0),(0,-1),(-1,0)] (createGame (Some (Finite 25)) (Finite 0)))) 0 0) = Safe"
  "isTrapped \<lparr>x = 0, y = 0\<rparr> (grid (play [(-1,0),(1,0),(0,-1),(-1,0)] (createGame (Some (Finite 25)) (Finite 0))))"
  by (simp_all add: ev seed25 isTrapped_def)

lemma run4:
  "archetype (tileAt (grid (createGame (Some (Finite 4)) (Finite 0))) 1 1) = Sequence"
  "accepted 1 0 (Some (createGame (Some (Finite 4)) (Finite 0)))"
  "player (play [(1,0)] (createGame (Some (Finite 4)) (Finite 0))) = \<lparr>x = 2, y = 1\<rparr>"
  "state (tileAt (grid (play [(1,0)] (createGame (Some (Finite 4)) (Finite 0)))) 1 1) = Wall"
  by (simp_all add: ev seed4)


section \<open>The claims\<close>

text \<open>
  Claim C1 says that a player whose four neighbours are all walls or off the grid is shown
  the entrapment message after a non-winning accepted move. What \<open>checkFailure\<close> does in
  that situation: the player is not on the exit tile, so a trapped player has no route,
  the first branch fires and the message is the reachability message; the \<open>else if\<close>
  with the entrapment message is never reached.
\<close>

theorem trapped_player_is_told_sealed:
  assumes wf: "wf_game g" and acc: "accepted dx dy (Some g)"
    and eq: "attemptMove dx dy (Some g) = Some g'"
    and nonwin: "state (tileAt (grid g') (y (player g')) (x (player g'))) \<noteq> Exit"
    and trapped: "isTrapped (player g') (grid g')"
  shows "message g' = ''The maze has sealed. No route remains.''"
proof -
  define nx ny where "nx = x (player g) + dx" and "ny = y (player g) + dy"
  define g2 where "g2 = enter (find (\<lambda>dir. x dir = dx \<and> y dir = dy) directions) nx ny (vacate g)"
  define g3 where "g3 = (if state (tileAt (grid g2) ny nx) = Neutral
                         then g2\<lparr>grid := updTile (\<lambda>t. t\<lparr>state := Safe\<rparr>) ny nx (grid g2)\<rparr>
                         else g2)"
  note st = accepted_steps[OF wf acc]
  from st(1) eq have g': "g' = settle nx ny g2" by (simp add: g2_def nx_def ny_def)
  from st(2) have on: "\<not> offGrid nx ny" by (simp add: nx_def ny_def)
  from st(4) have s2: "gridShape (grid g2)" by (simp add: gridKeeps_def g2_def nx_def ny_def)
  have pl: "player g' = \<lparr>x = nx, y = ny\<rparr>" "player g3 = \<lparr>x = nx, y = ny\<rparr>"
    by (simp_all add: g' g3_def g2_def settle_fields enter_fields)
  have ex: "exit g3 = exit g'" by (simp add: g' g3_def settle_fields)
  have s3: "gridShape (grid g3)" using s2 by (simp add: g3_def gridShape_updTile)
  have gr: "grid g' = map (map decayReveal) (grid g3)"
    by (simp add: g' g3_def settle_def Let_def draw_fields checkFailure_eq flashMessage_def)
  have same: "state (tileAt (grid g') yy xx) = state (tileAt (grid g3) yy xx)" if "\<not> offGrid xx yy" for yy xx
    unfolding gr by (simp add: tileAt_map[OF s3 that] decayReveal_def)
  from nonwin pl have "state (tileAt (grid g') ny nx) \<noteq> Exit" by simp
  then have ne2: "state (tileAt (grid g2) ny nx) \<noteq> Exit"
    unfolding g' settle_state[OF s2 on on] by (simp split: if_splits)
  then have msg: "message g' = checkMessage g3"
    by (simp add: g' settle_message g3_def)
  have wf': "wf_game g'" by (rule attemptMove_inv(1)[OF wf eq])
  then have ie: "\<not> offGrid (x (exit g')) (y (exit g'))"
    and es: "state (tileAt (grid g') (y (exit g')) (x (exit g'))) = Exit"
    by (simp_all add: wf_game_def inGrid_def)
  have "x (player g3) \<noteq> x (exit g3) \<or> y (player g3) \<noteq> y (exit g3)"
  proof (rule ccontr)
    assume "\<not> (x (player g3) \<noteq> x (exit g3) \<or> y (player g3) \<noteq> y (exit g3))"
    then have "x (exit g') = nx" "y (exit g') = ny" by (simp_all add: pl ex)
    with es nonwin show False by (simp add: pl)
  qed
  moreover have "isTrapped (player g3) (grid g3)"
    using trapped isTrapped_states[of "grid g'" "grid g3" "player g3", OF same] by (simp add: pl)
  ultimately have "\<not> pathExists (player g3) (exit g3) (grid g3)"
    by (rule trapped_no_path[rotated])
  then show ?thesis
    by (simp add: msg checkMessage_def)
qed

text \<open>
  A session of that kind: seed 25, moves west, east, north, west. The tiles \<open>(0, 1)\<close> and
  \<open>(1, 0)\<close> harden behind the player, who ends in the corner \<open>(0, 0)\<close> with the
  reachability message.
\<close>

theorem trapped_player_is_told_sealed_witness:
  "wf_game (play [(-1,0),(1,0),(0,-1)] (createGame (Some (Finite 25)) (Finite 0))) \<and>
   accepted (-1) 0 (Some (play [(-1,0),(1,0),(0,-1)] (createGame (Some (Finite 25)) (Finite 0)))) \<and>
   attemptMove (-1) 0 (Some (play [(-1,0),(1,0),(0,-1)] (createGame (Some (Finite 25)) (Finite 0)))) =
     Some (play [(-1,0),(1,0),(0,-1),(-1,0)] (createGame (Some (Finite 25)) (Finite 0))) \<and>
   player (play [(-1,0),(1,0),(0,-1),(-1,0)] (createGame (Some (Finite 25)) (Finite 0))) = \<lparr>x = 0, y = 0\<rparr> \<and>
   state (tileAt (grid (play [(-1,0),(1,0),(0,-1),(-1,0)] (createGame (Some (Finite 25)) (Finite 0)))) 0 0) \<noteq> Exit \<and>
   isTrapped \<lparr>x = 0, y = 0\<rparr> (grid (play [(-1,0),(1,0),(0,-1),(-1,0)] (createGame (Some (Finite 25)) (Finite 0)))) \<and>
   message (play [(-1,0),(1,0),(0,-1),(-1,0)] (createGame (Some (Finite 25)) (Finite 0))) =
     ''The maze has sealed. No route remains.'' \<and>
   message (play [(-1,0),(1,0),(0,-1),(-1,0)] (createGame (Some (Finite 25)) (Finite 0))) \<noteq>
     ''You are sealed inside your own pattern.''"
proof -
  let ?g = "play [(-1,0),(1,0),(0,-1)] (createGame (Some (Finite 25)) (Finite 0))"
  let ?g' = "play [(-1,0),(1,0),(0,-1),(-1,0)] (createGame (Some (Finite 25)) (Finite 0))"
  have h1: "wf_game ?g" by (rule play_inv(1)[OF createGame_wf])
  have h2: "accepted (-1) 0 (Some ?g)" by (rule run25(1))
  have h3: "attemptMove (-1) 0 (Some ?g) = Some ?g'"
    using play_snoc[of "-1" 0 "[(-1,0),(1,0),(0,-1)]" "createGame (Some (Finite 25)) (Finite 0)"] by simp
  have h4: "state (tileAt (grid ?g') (y (player ?g')) (x (player ?g'))) \<noteq> Exit"
    by (simp add: run25(2,3))
  have h5: "isTrapped (player ?g') (grid ?g')"
    by (simp add: run25(2,4))
  from trapped_player_is_told_sealed[OF h1 h2 h3 h4 h5]
  have "message ?g' = ''The maze has sealed. No route remains.''" .
  then show ?thesis
    using h1 h2 h3 run25(2,3,4) by simp
qed

text \<open>
  Claim C2: a move whose destination tile is a wall changes neither the player position,
  nor \<open>moveCount\<close>, nor any tile, nor any of the three history buffers, and sets the
  message that the way is blocked.
\<close>

theorem wall_move_is_rejected:
  assumes "\<not> offGrid (x (player g) + dx) (y (player g) + dy)"
    and "state (tileAt (grid g) (y (player g) + dy) (x (player g) + dx)) = Wall"
  shows "\<exists>g'. attemptMove dx dy (Some g) = Some g' \<and>
           player g' = player g \<and> moveCount g' = moveCount g \<and> grid g' = grid g \<and>
           recentDirections g' = recentDirections g \<and>
           recentArchetypes g' = recentArchetypes g \<and>
           recentPositions g' = recentPositions g \<and>
           message g' = ''Crystallized path blocks the way.''"
  using attemptMove_blocked[OF assms] by simp

text \<open>
  With seed 4 the start tile hardens on the first move east; the move back west is rejected.
\<close>

theorem wall_move_is_rejected_witness:
  "\<not> offGrid (x (player (play [(1,0)] (createGame (Some (Finite 4)) (Finite 0)))) + -1)
             (y (player (play [(1,0)] (createGame (Some (Finite 4)) (Finite 0)))) + 0) \<and>
   state (tileAt (grid (play [(1,0)] (createGame (Some (Finite 4)) (Finite 0))))
            (y (player (play [(1,0)] (createGame (Some (Finite 4)) (Finite 0)))) + 0)
            (x (player (play [(1,0)] (createGame (Some (Finite 4)) (Finite 0)))) + -1)) = Wall \<and>
   (\<exists>g'. attemptMove (-1) 0 (Some (play [(1,0)] (createGame (Some (Finite 4)) (Finite 0)))) = Some g' \<and>
      player g' = player (play [(1,0)] (createGame (Some (Finite 4)) (Finite 0))) \<and>
      moveCount g' = moveCount (play [(1,0)] (createGame (Some (Finite 4)) (Finite 0))) \<and>
      grid g' = grid (play [(1,0)] (createGame (Some (Finite 4)) (Finite 0))) \<and>
      recentDirections g' = recentDirections (play [(1,0)] (createGame (Some (Finite 4)) (Finite 0))) \<and>
      recentArchetypes g' = recentArchetypes (play [(1,0)] (createGame (Some (Finite 4)) (Finite 0))) \<and>
      recentPositions g' = recentPositions (play [(1,0)] (createGame (Some (Finite 4)) (Finite 0))) \<and>
      message g' = ''Crystallized path blocks the way.'')"
proof -
  let ?g = "play [(1,0)] (createGame (Some (Finite 4)) (Finite 0))"
  have h1: "\<not> offGrid (x (player ?g) + -1) (y (player ?g) + 0)"
    by (simp add: run4(3) offGrid_def gridSize_def)
  have h2: "state (tileAt (grid ?g) (y (player ?g) + 0) (x (player ?g) + -1)) = Wall"
    by (simp add: run4(3,4))
  from wall_move_is_rejected[OF h1 h2] h1 h2 show ?thesis by blast
qed

text \<open>
  Claim C3: a tile that is a wall is still a wall after any sequence of \<open>attemptMove\<close>
  calls, accepted or rejected.
\<close>

theorem wall_is_permanent:
  assumes "wf_game g" and "\<not> offGrid xx yy" and "state (tileAt (grid g) yy xx) = Wall"
  shows "\<exists>g'. moves ms (Some g) = Some g' \<and> state (tileAt (grid g') yy xx) = Wall"
proof -
  from moves_inv[OF assms(1), of ms] obtain g' where
    g': "moves ms (Some g) = Some g'" "gridKeeps (grid g) (grid g')" by blast
  from g'(2) assms(2) have "tileKeeps (tileAt (grid g) yy xx) (tileAt (grid g') yy xx)"
    by (simp add: gridKeeps_def)
  with assms(3) g'(1) show ?thesis
    by (simp add: tileKeeps_def)
qed

text \<open>
  The hardened start tile of the same session stays a wall through four more moves.
\<close>

theorem wall_is_permanent_witness:
  "wf_game (play [(1,0)] (createGame (Some (Finite 4)) (Finite 0))) \<and> \<not> offGrid 1 1 \<and>
   state (tileAt (grid (play [(1,0)] (createGame (Some (Finite 4)) (Finite 0)))) 1 1) = Wall \<and>
   (\<exists>g'. moves [(-1,0),(0,1),(1,0),(0,-1)] (Some (play [(1,0)] (createGame (Some (Finite 4)) (Finite 0)))) = Some g' \<and>
      state (tileAt (grid g') 1 1) = Wall)"
proof -
  let ?g = "play [(1,0)] (createGame (Some (Finite 4)) (Finite 0))"
  have h1: "wf_game ?g" by (rule play_inv(1)[OF createGame_wf])
  have h2: "\<not> offGrid 1 1" by (simp add: offGrid_def gridSize_def)
  from wall_is_permanent[OF h1 h2 run4(4)] h1 h2 run4(4) show ?thesis by blast
qed

text \<open>
  Claim C4: in every session reached from \<open>createGame\<close> by any sequence of operations
  (moves onto and off the exit tile included), the exit is at \<open>(gridSize - 2, gridSize - 2)\<close>,
  the tile there has state \<open>exit\<close>, and \<open>applyTileRule\<close> on it changes nothing.
\<close>

theorem exit_tile_stays_exit:
  "\<exists>g'. execAll ops (Some (createGame seed random)) = Some g' \<and>
        exit g' = \<lparr>x = gridSize - 2, y = gridSize - 2\<rparr> \<and>
        state (tileAt (grid g') (y (exit g')) (x (exit g'))) = Exit \<and>
        applyTileRule (y (exit g')) (x (exit g')) g' = g'"
proof -
  have "wf_game (createGame seed random)"
    "crystallized (createGame seed random) = wallCount (grid (createGame seed random))"
    "exit (createGame seed random) = \<lparr>x = 16, y = 16\<rparr>"
    by (simp_all add: createGame_def newSession_wf newSession_wallCount newSession_fields)
  from execAll_inv[OF this, of ops] obtain g' where
    g': "execAll ops (Some (createGame seed random)) = Some g'" "wf_game g'"
    "exit g' = \<lparr>x = 16, y = 16\<rparr>" by blast
  from g'(2) have "state (tileAt (grid g') (y (exit g')) (x (exit g'))) = Exit"
    by (simp add: wf_game_def)
  then show ?thesis
    using g'(1,3) by (simp add: applyTileRule_def gridSize_def)
qed

text \<open>
  Claim C5: two sessions created by \<open>createGame\<close> with the same seed have the same grid,
  the same thresholds and the same archetype pool. \<open>createGame\<close> reads nothing but its
  argument: with a seed given it does not call \<open>Math.random\<close>, the generator is a closure
  of its own for every call, \<open>shuffle\<close> works on a copy of \<open>archetypes\<close>, and every step
  of the generator is integer arithmetic on 32 bits and one binary64 addition, rounded as
  \<open>advance\<close> has it. So the three are functions of the seed, and these are
  the functions: the pool is the first four entries of the shuffled \<open>archetypes\<close>, the
  thresholds are the draws 5 to 8 of the stream of the seed, and the tile in row \<open>yy\<close> and
  column \<open>xx\<close> takes its archetype from the pool at the draw \<open>9 + 18 * yy + xx\<close>; every
  tile starts \<open>neutral\<close> except the start tile \<open>(1, 1)\<close>, which is \<open>safe\<close>, and the exit
  tile \<open>(16, 16)\<close>.
\<close>

theorem createGame_same_seed_same_session:
  "grid (createGame (Some seed) random1) = grid (createGame (Some seed) random2) \<and>
   thresholds (createGame (Some seed) random1) = thresholds (createGame (Some seed) random2) \<and>
   archetypePool (createGame (Some seed) random1) = archetypePool (createGame (Some seed) random2) \<and>
   archetypePool (createGame (Some seed) random1) = take 4 (fst (shuffle archetypes seed)) \<and>
   thresholds (createGame (Some seed) random1) =
     \<lparr>thirdExit = 3 + drawAt 2 seed 4, frequencyWindow = 6 + drawAt 4 seed 5,
      frequencyCount = 3 + drawAt 2 seed 6, backtrackWindow = 4 + drawAt 3 seed 7\<rparr> \<and>
   gridShape (grid (createGame (Some seed) random1)) \<and>
   (\<forall>yy xx. \<not> offGrid xx yy \<longrightarrow>
      tileAt (grid (createGame (Some seed) random1)) yy xx =
        \<lparr>x = xx, y = yy,
         archetype = take 4 (fst (shuffle archetypes seed)) ! drawAt 4 seed (8 + nat yy * 18 + nat xx),
         state = (if yy = 16 \<and> xx = 16 then Exit else if yy = 1 \<and> xx = 1 then Safe else Neutral),
         leaveCount = 0, visits = 0, lastEntry = None, reveal = 0\<rparr>)"
proof -
  have c: "createGame (Some seed) r = newSession seed" for r
    by (simp add: createGame_def)
  have t: "tileAt (grid (newSession seed)) yy xx =
        \<lparr>x = xx, y = yy,
         archetype = take 4 (fst (shuffle archetypes seed)) ! drawAt 4 seed (8 + nat yy * 18 + nat xx),
         state = (if yy = 16 \<and> xx = 16 then Exit else if yy = 1 \<and> xx = 1 then Safe else Neutral),
         leaveCount = 0, visits = 0, lastEntry = None, reveal = 0\<rparr>"
    if "\<not> offGrid xx yy" for yy xx
    using newSession_tile[OF that, of seed] by (simp only: newSession_fields(8))
  show ?thesis
    unfolding c using t by (simp add: newSession_fields(8,9) newSession_shape)
qed

text \<open>
  Seed 42, whatever \<open>Math.random\<close> would return: the pool, the thresholds and the tile
  at \<open>(2, 2)\<close>, which is drawn at position 47 of the stream.
\<close>

theorem createGame_same_seed_same_session_witness:
  "\<not> offGrid 2 2 \<and>
   grid (createGame (Some (Finite 42)) (Finite 1)) = grid (createGame (Some (Finite 42)) (Finite 2)) \<and>
   archetypePool (createGame (Some (Finite 42)) (Finite 1)) =
     [ThirdExit, Backtrack, Sequence, NorthEntry] \<and>
   thresholds (createGame (Some (Finite 42)) (Finite 1)) =
     \<lparr>thirdExit = 3, frequencyWindow = 8, frequencyCount = 3, backtrackWindow = 5\<rparr> \<and>
   tileAt (grid (createGame (Some (Finite 42)) (Finite 1))) 2 2 =
     \<lparr>x = 2, y = 2, archetype = Sequence, state = Neutral, leaveCount = 0, visits = 0,
      lastEntry = None, reveal = 0\<rparr>"
proof -
  have o: "\<not> offGrid 2 2" by (simp add: offGrid_def gridSize_def)
  from createGame_same_seed_same_session[of "Finite 42" "Finite 1" "Finite 2"] o
  show ?thesis
    by (simp add: createGame_def seed42_draws seed42(5))
qed

text \<open>
  Claim C6: \<open>attemptMove\<close> adds one to \<open>moveCount\<close> when the move is accepted (there is a
  session, the destination is inside the grid and not a wall) and leaves it as it is in
  every other case; without a session there is none afterwards either.
\<close>

theorem moveCount_counts_accepted_moves:
  "map_option moveCount (attemptMove dx dy gm) =
     map_option (\<lambda>g. if accepted dx dy gm then moveCount g + 1 else moveCount g) gm"
proof (cases gm)
  case None
  then show ?thesis by (simp add: attemptMove_None)
next
  case (Some g)
  show ?thesis
  proof (cases rule: attemptMove_cases[of g dx dy])
    case offGrid
    then show ?thesis by (simp add: Some accepted_def)
  next
    case blocked
    then show ?thesis by (simp add: Some accepted_def)
  next
    case accepted
    then show ?thesis
      by (simp add: Some settle_fields enter_fields vacate_fields)
  qed
qed



text \<open>
  Claim C8, as the code has it: the rule reads \<open>recentDirections\<close> before the direction of
  the current move is pushed. When its last two entries are equal, an accepted move turns
  the tile it leaves into a wall if that tile has archetype \<open>sequence\<close> and is neither wall
  nor exit.
\<close>

theorem sequence_tile_hardens_after_two_equal_directions:
  assumes "wf_game g" and "accepted dx dy (Some g)"
    and "attemptMove dx dy (Some g) = Some g'"
    and "archetype (tileAt (grid g) (y (player g)) (x (player g))) = Sequence"
    and "state (tileAt (grid g) (y (player g)) (x (player g))) \<noteq> Wall"
    and "state (tileAt (grid g) (y (player g)) (x (player g))) \<noteq> Exit"
    and "sliceLast 2 (recentDirections g) = [d, d]"
  shows "state (tileAt (grid g') (y (player g)) (x (player g))) = Wall"
proof -
  from assms(4-7) have "crystallizes g"
    by (simp add: crystallizes_def Let_def)
  with assms(1-3) show ?thesis by (rule vacated_tile_wall)
qed

text \<open>
  Two moves in the same direction do not harden the tile left by the second. With seed 42
  the player moves east, south, south; the tile \<open>(2, 2)\<close>, left by the second move south,
  has archetype \<open>sequence\<close> and stays safe: when its rule runs the buffer holds east, south.
\<close>

theorem repeated_direction_counterexample:
  "accepted 0 1 (Some (play [(1,0)] (createGame (Some (Finite 42)) (Finite 0)))) \<and>
   accepted 0 1 (Some (play [(1,0),(0,1)] (createGame (Some (Finite 42)) (Finite 0)))) \<and>
   player (play [(1,0),(0,1)] (createGame (Some (Finite 42)) (Finite 0))) = \<lparr>x = 2, y = 2\<rparr> \<and>
   archetype (tileAt (grid (play [(1,0),(0,1)] (createGame (Some (Finite 42)) (Finite 0)))) 2 2) = Sequence \<and>
   state (tileAt (grid (play [(1,0),(0,1)] (createGame (Some (Finite 42)) (Finite 0)))) 2 2) = Safe \<and>
   state (tileAt (grid (play [(1,0),(0,1),(0,1)] (createGame (Some (Finite 42)) (Finite 0)))) 2 2) \<noteq> Wall"
  by (simp add: run42)

text \<open>
  One more move south in the same session: the buffer now ends south, south, and the tile
  \<open>(2, 3)\<close> that this move leaves hardens.
\<close>

theorem sequence_tile_hardens_after_two_equal_directions_witness:
  "wf_game (play [(1,0),(0,1),(0,1)] (createGame (Some (Finite 42)) (Finite 0))) \<and>
   accepted 0 1 (Some (play [(1,0),(0,1),(0,1)] (createGame (Some (Finite 42)) (Finite 0)))) \<and>
   attemptMove 0 1 (Some (play [(1,0),(0,1),(0,1)] (createGame (Some (Finite 42)) (Finite 0)))) =
     Some (play [(1,0),(0,1),(0,1),(0,1)] (createGame (Some (Finite 42)) (Finite 0))) \<and>
   player (play [(1,0),(0,1),(0,1)] (createGame (Some (Finite 42)) (Finite 0))) = \<lparr>x = 2, y = 3\<rparr> \<and>
   archetype (tileAt (grid (play [(1,0),(0,1),(0,1)] (createGame (Some (Finite 42)) (Finite 0)))) 3 2) = Sequence \<and>
   state (tileAt (grid (play [(1,0),(0,1),(0,1)] (createGame (Some (Finite 42)) (Finite 0)))) 3 2) = Safe \<and>
   sliceLast 2 (recentDirections (play [(1,0),(0,1),(0,1)] (createGame (Some (Finite 42)) (Finite 0)))) =
     [Some South, Some South] \<and>
   state (tileAt (grid (play [(1,0),(0,1),(0,1),(0,1)] (createGame (Some (Finite 42)) (Finite 0)))) 3 2) = Wall"
proof -
  let ?g = "play [(1,0),(0,1),(0,1)] (createGame (Some (Finite 42)) (Finite 0))"
  let ?g' = "play [(1,0),(0,1),(0,1),(0,1)] (createGame (Some (Finite 42)) (Finite 0))"
  have h1: "wf_game ?g" by (rule play_inv(1)[OF createGame_wf])
  have h3: "attemptMove 0 1 (Some ?g) = Some ?g'"
    using play_snoc[of 0 1 "[(1,0),(0,1),(0,1)]" "createGame (Some (Finite 42)) (Finite 0)"] by simp
  have h4: "archetype (tileAt (grid ?g) (y (player ?g)) (x (player ?g))) = Sequence"
    and h5: "state (tileAt (grid ?g) (y (player ?g)) (x (player ?g))) \<noteq> Wall"
    and h6: "state (tileAt (grid ?g) (y (player ?g)) (x (player ?g))) \<noteq> Exit"
    by (simp_all add: run42b(1,3,4))
  have h7: "sliceLast 2 (recentDirections ?g) = [Some South, Some South]"
    by (simp add: run42b(5) sliceLast_def)
  from sequence_tile_hardens_after_two_equal_directions[OF h1 run42b(2) h3 h4 h5 h6 h7]
  have "state (tileAt (grid ?g') 3 2) = Wall" by (simp add: run42b(1))
  then show ?thesis
    using h1 h3 h7 run42b by simp
qed

text \<open>
  Claim C9: in a fresh session whose start tile \<open>(1, 1)\<close> has archetype \<open>sequence\<close>, the
  first accepted move turns the start tile into a wall. The player stands on that tile, the
  direction buffer is still empty when the rule is applied, and the trigger is true on it.
\<close>

theorem first_move_hardens_sequence_start:
  assumes "archetype (tileAt (grid (createGame seed random)) 1 1) = Sequence"
    and "accepted dx dy (Some (createGame seed random))"
  shows "player (createGame seed random) = \<lparr>x = 1, y = 1\<rparr> \<and>
         trigger Sequence (tileAt (grid (createGame seed random)) 1 1) (createGame seed random) \<and>
         (\<exists>g'. attemptMove dx dy (Some (createGame seed random)) = Some g' \<and>
               state (tileAt (grid g') 1 1) = Wall)"
proof -
  define g where "g = createGame seed random"
  obtain a0 where g0: "g = newSession a0" by (simp add: g_def createGame_def)
  have wf: "wf_game g" by (simp add: g0 newSession_wf)
  have pl: "player g = \<lparr>x = 1, y = 1\<rparr>" by (simp add: g0 newSession_fields)
  have o: "\<not> offGrid 1 1" by (simp add: offGrid_def gridSize_def)
  have tr: "trigger Sequence t g" for t
    by (rule sequence_vacuous) (simp add: g0 newSession_fields)
  have a1: "archetype (tileAt (grid g) 1 1) = Sequence"
    using assms(1) by (simp add: g_def)
  have "state (tileAt (grid g) 1 1) = Safe"
    by (simp add: g0 newSession_tile[OF o])
  with tr have cr: "crystallizes g"
    by (simp add: crystallizes_def Let_def pl a1)
  obtain g' where eq: "attemptMove dx dy (Some g) = Some g'"
    by (cases rule: attemptMove_cases[of g dx dy]) simp_all
  from vacated_tile_wall[OF wf assms(2)[folded g_def] eq cr]
  have "state (tileAt (grid g') 1 1) = Wall" by (simp add: pl)
  with eq pl tr show ?thesis by (simp add: g_def)
qed

text \<open>
  Seed 4 gives the start tile the archetype \<open>sequence\<close>; one move east hardens it.
\<close>

theorem first_move_hardens_sequence_start_witness:
  "archetype (tileAt (grid (createGame (Some (Finite 4)) (Finite 0))) 1 1) = Sequence \<and>
   accepted 1 0 (Some (createGame (Some (Finite 4)) (Finite 0))) \<and>
   (\<exists>g'. attemptMove 1 0 (Some (createGame (Some (Finite 4)) (Finite 0))) = Some g' \<and>
         state (tileAt (grid g') 1 1) = Wall)"
  using first_move_hardens_sequence_start[OF run4(1,2)] run4(1,2) by blast

text \<open>
  Claim C10: after any sequence of \<open>createGame\<close>, \<open>attemptMove\<close>, \<open>reveal\<close> and
  \<open>draw\<close>, the \<open>crystallized\<close> counter is the number of wall tiles of the grid.
\<close>

theorem crystallized_counts_walls:
  "\<exists>g'. execAll ops (Some (createGame seed random)) = Some g' \<and>
        crystallized g' = wallCount (grid g')"
proof -
  have "wf_game (createGame seed random)"
    "crystallized (createGame seed random) = wallCount (grid (createGame seed random))"
    "exit (createGame seed random) = \<lparr>x = 16, y = 16\<rparr>"
    by (simp_all add: createGame_def newSession_wf newSession_wallCount newSession_fields)
  from execAll_inv[OF this, of ops] show ?thesis by blast
qed

end
